theory Spec2Isabelle
  imports Main "HOL-Library.Word"
begin

section \<open>Bitmaps\<close>

text \<open>
  The program handles bitmaps through the imaging library's \<open>Image\<close> objects. An image has a
  mode, a size and pixel data read as \<open>pixels[x, y]\<close>. A pixel is held as four 8-bit
  bands (red, green, blue, alpha); in an RGB image the fourth band is padding and no
  function of the program reads it.
\<close>

datatype mode = RGB | RGBA | OtherMode

type_synonym pixel = "8 word \<times> 8 word \<times> 8 word \<times> 8 word"

record image =
  mode :: mode
  width :: nat
  height :: nat
  pixels :: "nat \<times> nat \<Rightarrow> pixel"

text \<open>
  The exception classes of \<open>exceptions.py\<close> that the pipeline raises, the built-in
  \<open>ValueError\<close>, \<open>OverflowError\<close> and \<open>MemoryError\<close>, and any other exception
  (raised by a collaborator); each carries its message, which \<open>str(e)\<close> returns.
\<close>

datatype error =
    ValueError string
  | OverflowError string
  | MemoryError string
  | RenderingError string
  | CompositionError string
  | OtherException string

fun str :: "error \<Rightarrow> string" where
  "str (ValueError m) = m"
| "str (OverflowError m) = m"
| "str (MemoryError m) = m"
| "str (RenderingError m) = m"
| "str (CompositionError m) = m"
| "str (OtherException m) = m"

text \<open>
  Two pixel computations are internal to the imaging library and no property below depends
  on their values, so they are parameters of the model: the colour conversion that
  \<open>convert('RGB')\<close> applies to a pixel of an image of the given mode, and the channel
  blend of a paste through a mask (mask value, destination channel, source channel).

  So are the library's limits on the size of the canvas the compositor builds, which
  depend on the library's settings and on the memory of the machine: for a size
  \<open>(width, height)\<close> within the range of a C \<open>int\<close>, \<open>new_refused\<close> is the exception
  with which \<open>Image.new\<close> fails to allocate an RGB image of that size, and
  \<open>crop_refused\<close> the exception with which \<open>crop\<close> refuses a result of that size (its
  size check, or the allocation); \<open>None\<close> when the library does it.
\<close>

record pil =
  convert_pixel :: "mode \<Rightarrow> pixel \<Rightarrow> pixel"
  blend :: "8 word \<Rightarrow> 8 word \<Rightarrow> 8 word \<Rightarrow> 8 word"
  new_refused :: "nat \<times> nat \<Rightarrow> error option"
  crop_refused :: "nat \<times> nat \<Rightarrow> error option"

definition white :: pixel where
  "white = (255, 255, 255, 255)"

text \<open>
  \<open>Image.new(mode, size, color)\<close> where it succeeds: the image of that size and colour.
  The pages and what the renderer makes of them are no larger than what the rasterizer
  loaded, so the renderer's allocations are taken to succeed; the compositor's canvas
  grows with the number of pages and the spacing, and its allocation (\<open>new_canvas\<close>
  below) and its crop (\<open>crop_canvas\<close>) can fail.
\<close>

definition Image_new :: "mode \<Rightarrow> nat \<times> nat \<Rightarrow> pixel \<Rightarrow> image" where
  "Image_new m sz color =
     \<lparr>mode = m, width = fst sz, height = snd sz, pixels = (\<lambda>_. color)\<rparr>"

text \<open>\<open>image.convert('RGB')\<close>: same size, every pixel converted.\<close>

definition Image_convert_RGB :: "pil \<Rightarrow> image \<Rightarrow> image" where
  "Image_convert_RGB P im =
     \<lparr>mode = RGB, width = width im, height = height im,
      pixels = (\<lambda>xy. convert_pixel P (mode im) (pixels im xy))\<rparr>"

text \<open>
  \<open>image.crop((left, upper, right, lower))\<close>: the result is \<open>right - left\<close> wide and
  \<open>lower - upper\<close> high, and its pixel \<open>(x, y)\<close> is the source's pixel
  \<open>(left + x, upper + y)\<close>; the library fills what lies outside the source with zeros.
\<close>

definition Image_crop :: "image \<Rightarrow> int \<times> int \<times> int \<times> int \<Rightarrow> image" where
  "Image_crop im box =
     (case box of (left, upper, right, lower) \<Rightarrow>
        \<lparr>mode = mode im, width = nat (right - left), height = nat (lower - upper),
         pixels = (\<lambda>(x, y).
            let sx = left + int x; sy = upper + int y
            in if 0 \<le> sx \<and> sx < int (width im) \<and> 0 \<le> sy \<and> sy < int (height im)
               then pixels im (nat sx, nat sy) else (0, 0, 0, 0))\<rparr>)"

text \<open>
  \<open>canvas.paste(image, (x, y))\<close> on an RGB canvas, which the program's canvases all
  are: the part of the image that falls on the canvas replaces the canvas's pixels there.
  An RGB image is copied as it is, and so are the bands of an image with alpha (the padding
  band of the canvas takes the alpha); an image of another mode is converted to RGB first.
\<close>

definition paste_source :: "pil \<Rightarrow> image \<Rightarrow> nat \<times> nat \<Rightarrow> pixel" where
  "paste_source P im xy =
     (if mode im = RGB \<or> mode im = RGBA then pixels im xy
      else convert_pixel P (mode im) (pixels im xy))"

definition Image_paste :: "pil \<Rightarrow> image \<Rightarrow> image \<Rightarrow> int \<times> int \<Rightarrow> image" where
  "Image_paste P canvas im pos =
     (case pos of (x0, y0) \<Rightarrow>
        canvas\<lparr>pixels := (\<lambda>(x, y).
           let sx = int x - x0; sy = int y - y0
           in if x < width canvas \<and> y < height canvas
                 \<and> 0 \<le> sx \<and> sx < int (width im) \<and> 0 \<le> sy \<and> sy < int (height im)
              then paste_source P im (nat sx, nat sy)
              else pixels canvas (x, y))\<rparr>)"

text \<open>
  \<open>canvas.paste(image, mask=image.split()[3])\<close>: at the origin, every channel
  blended with the canvas's through the image's alpha band.
\<close>

definition Image_paste_alpha :: "pil \<Rightarrow> image \<Rightarrow> image \<Rightarrow> image" where
  "Image_paste_alpha P canvas im =
     canvas\<lparr>pixels := (\<lambda>(x, y).
        if x < width canvas \<and> y < height canvas \<and> x < width im \<and> y < height im
        then (case (pixels canvas (x, y), pixels im (x, y)) of
                ((dr, dg, db, da), (sr, sg, sb, sa)) \<Rightarrow>
                  (blend P sa dr sr, blend P sa dg sg, blend P sa db sb, blend P sa da sa))
        else pixels canvas (x, y))\<rparr>"

section \<open>The renderer (\<open>renderer.py\<close>)\<close>

text \<open>
  The fields of a \<open>PDFRenderer\<close>. Its constructor raises \<open>ValueError\<close> unless
  \<open>72 \<le> dpi \<le> 300\<close> and \<open>0 \<le> crop_margin\<close>.
\<close>

record renderer =
  dpi :: int
  auto_crop :: bool
  crop_margin :: int

text \<open>\<open>PDFRenderer._is_white_pixel\<close>\<close>

definition is_white_pixel :: "pixel \<Rightarrow> int \<Rightarrow> bool" where
  "is_white_pixel p threshold =
     (case p of (r, g, b, a) \<Rightarrow>
        uint r > threshold \<and> uint g > threshold \<and> uint b > threshold)"

text \<open>
  The four boundary scans. Each is two nested \<open>range\<close> loops that return at the first
  pixel that is not white: the outer loop is \<open>find\<close> over the range, the inner loop
  \<open>list_ex\<close>. The callers leave the threshold at its default, 250.
\<close>

definition find_left_boundary :: "(nat \<times> nat \<Rightarrow> pixel) \<Rightarrow> nat \<Rightarrow> nat \<Rightarrow> nat" where
  "find_left_boundary px w h =
     (case find (\<lambda>x. list_ex (\<lambda>y. \<not> is_white_pixel (px (x, y)) 250) [0..<h]) [0..<w] of
        Some x \<Rightarrow> x
      | None \<Rightarrow> 0)"

definition find_right_boundary :: "(nat \<times> nat \<Rightarrow> pixel) \<Rightarrow> nat \<Rightarrow> nat \<Rightarrow> nat" where
  "find_right_boundary px w h =
     (case find (\<lambda>x. list_ex (\<lambda>y. \<not> is_white_pixel (px (x, y)) 250) [0..<h]) (rev [0..<w]) of
        Some x \<Rightarrow> x + 1
      | None \<Rightarrow> w)"

definition find_top_boundary :: "(nat \<times> nat \<Rightarrow> pixel) \<Rightarrow> nat \<Rightarrow> nat \<Rightarrow> nat" where
  "find_top_boundary px w h =
     (case find (\<lambda>y. list_ex (\<lambda>x. \<not> is_white_pixel (px (x, y)) 250) [0..<w]) [0..<h] of
        Some y \<Rightarrow> y
      | None \<Rightarrow> 0)"

definition find_bottom_boundary :: "(nat \<times> nat \<Rightarrow> pixel) \<Rightarrow> nat \<Rightarrow> nat \<Rightarrow> nat" where
  "find_bottom_boundary px w h =
     (case find (\<lambda>y. list_ex (\<lambda>x. \<not> is_white_pixel (px (x, y)) 250) [0..<w]) (rev [0..<h]) of
        Some y \<Rightarrow> y + 1
      | None \<Rightarrow> h)"

text \<open>\<open>PDFRenderer._ensure_white_background\<close>\<close>

definition ensure_white_background :: "pil \<Rightarrow> image \<Rightarrow> image" where
  "ensure_white_background P im =
     (if mode im = RGBA then
        (let white_bg = Image_new RGB (width im, height im) white
         in Image_paste_alpha P white_bg im)
      else if mode im \<noteq> RGB then Image_convert_RGB P im
      else im)"

text \<open>
  \<open>PDFRenderer._crop_whitespace\<close>. The source's \<open>top\<close> is \<open>top0\<close> here (\<open>top\<close>
  is a constant of HOL), and the values after the margin carry a prime.
\<close>

definition crop_whitespace :: "pil \<Rightarrow> renderer \<Rightarrow> image \<Rightarrow> image" where
  "crop_whitespace P self im0 =
     (let im = (if mode im0 \<noteq> RGB then Image_convert_RGB P im0 else im0);
          px = pixels im; w = width im; h = height im;
          left = find_left_boundary px w h;
          right = find_right_boundary px w h;
          top0 = find_top_boundary px w h;
          bottom = find_bottom_boundary px w h;
          left' = max 0 (int left - crop_margin self);
          right' = min (int w) (int right + crop_margin self);
          top' = max 0 (int top0 - crop_margin self);
          bottom' = min (int h) (int bottom + crop_margin self)
      in if left' < right' \<and> top' < bottom'
         then Image_crop im (left', top', right', bottom')
         else im)"

text \<open>
  The body of the loop of \<open>render_pages\<close> up to the append: what the renderer does to
  one rasterized page.
\<close>

definition process_image :: "pil \<Rightarrow> renderer \<Rightarrow> image \<Rightarrow> image" where
  "process_image P self im =
     (let processed_image = ensure_white_background P im
      in if auto_crop self then crop_whitespace P self processed_image
         else processed_image)"

text \<open>
  A progress callback is a procedure of the caller: called with \<open>(current_page,
  total_pages)\<close> it changes the caller's state \<open>'s\<close> and returns, or raises.
\<close>

type_synonym 's callback = "nat \<Rightarrow> nat \<Rightarrow> 's \<Rightarrow> error option \<times> 's"

text \<open>
  The loop of \<open>render_pages\<close> over \<open>enumerate(images, start=1)\<close>: the state is the
  index, the list \<open>processed_images\<close> and the caller's state. An exception of the
  callback leaves the loop.
\<close>

fun process_images ::
  "pil \<Rightarrow> renderer \<Rightarrow> 's callback option \<Rightarrow> nat \<Rightarrow> nat \<Rightarrow> image list \<Rightarrow> image list \<Rightarrow> 's
     \<Rightarrow> (error + image list) \<times> 's" where
  "process_images P self progress_callback total_pages idx [] processed_images st =
     (Inr processed_images, st)"
| "process_images P self progress_callback total_pages idx (im # images) processed_images st =
     (let processed_images' = processed_images @ [process_image P self im]
      in case progress_callback of
           None \<Rightarrow>
             process_images P self progress_callback total_pages (idx + 1) images
               processed_images' st
         | Some cb \<Rightarrow>
             (case cb idx total_pages st of
                (Some e, st') \<Rightarrow> (Inl e, st')
              | (None, st') \<Rightarrow>
                  process_images P self progress_callback total_pages (idx + 1) images
                    processed_images' st'))"

text \<open>
  \<open>PDFRenderer.render_pages\<close>. The rasterizer \<open>convert_from_path\<close> is a collaborator:
  given the path and the resolution it returns the pages or raises. Every exception is
  wrapped in a \<open>RenderingError\<close>.
\<close>

definition render_pages ::
  "pil \<Rightarrow> renderer \<Rightarrow> (string \<Rightarrow> int \<Rightarrow> error + image list) \<Rightarrow> string \<Rightarrow> 's callback option \<Rightarrow> 's
     \<Rightarrow> (error + image list) \<times> 's" where
  "render_pages P self convert_from_path pdf_path progress_callback st =
     (case convert_from_path pdf_path (dpi self) of
        Inl e \<Rightarrow> (Inl (RenderingError (''Failed to render PDF pages: '' @ str e)), st)
      | Inr images \<Rightarrow>
          (case process_images P self progress_callback (length images) 1 images [] st of
             (Inl e, st') \<Rightarrow> (Inl (RenderingError (''Failed to render PDF pages: '' @ str e)), st')
           | (Inr processed_images, st') \<Rightarrow> (Inr processed_images, st')))"

text \<open>
  To observe the calls of a callback: the same callback, which also appends the
  arguments of each call to a log kept beside the caller's state.
\<close>

definition logged :: "'s callback \<Rightarrow> ('s \<times> (nat \<times> nat) list) callback" where
  "logged cb current_page total_pages =
     (\<lambda>(st, calls). case cb current_page total_pages st of
        (r, st') \<Rightarrow> (r, (st', calls @ [(current_page, total_pages)])))"

section \<open>The compositor (\<open>compositor.py\<close>)\<close>

text \<open>
  The fields of an \<open>ImageCompositor\<close>. Its constructor raises \<open>ValueError\<close> when
  \<open>spacing < 0\<close>.
\<close>

record compositor =
  spacing :: int
  auto_width :: bool

text \<open>The built-in \<open>max\<close> over a generator: it raises on an empty one.\<close>

definition py_max :: "nat list \<Rightarrow> error + nat" where
  "py_max xs =
     (case xs of
        [] \<Rightarrow> Inl (ValueError ''max() iterable argument is empty'')
      | x # ys \<Rightarrow> Inr (fold max ys x))"

text \<open>
  The total height computed by \<open>_calculate_canvas_size\<close> and, in the same words, by
  \<open>_compose_auto_width\<close>.
\<close>

definition total_height :: "compositor \<Rightarrow> image list \<Rightarrow> int" where
  "total_height self images =
     (let total = sum_list (map (\<lambda>img. int (height img)) images)
      in if length images > 1 then total + spacing self * (int (length images) - 1)
         else total)"

text \<open>\<open>ImageCompositor._calculate_canvas_size\<close>\<close>

definition calculate_canvas_size :: "compositor \<Rightarrow> image list \<Rightarrow> error + nat \<times> int" where
  "calculate_canvas_size self images =
     (case py_max (map width images) of
        Inl e \<Rightarrow> Inl e
      | Inr max_width \<Rightarrow> Inr (max_width, total_height self images))"

text \<open>
  The white RGB canvas both policies allocate,
  \<open>Image.new('RGB', (width, height), (255, 255, 255))\<close>. The height is an integer
  computed from the spacing. \<open>Image.new\<close> raises \<open>ValueError\<close> on a negative size,
  \<open>OverflowError\<close> on a size beyond the range of a C \<open>int\<close> (\<open>2\<^sup>3\<^sup>1 - 1\<close>), and
  whatever \<open>new_refused\<close> says when it cannot allocate the image.
\<close>

definition new_canvas :: "pil \<Rightarrow> nat \<Rightarrow> int \<Rightarrow> error + image" where
  "new_canvas P canvas_width canvas_height =
     (if canvas_height < 0 then Inl (ValueError ''Width and height must be >= 0'')
      else if int canvas_width > 2147483647 \<or> canvas_height > 2147483647
        then Inl (OverflowError ''signed integer is greater than maximum'')
      else case new_refused P (canvas_width, nat canvas_height) of
             Some e \<Rightarrow> Inl e
           | None \<Rightarrow> Inr (Image_new RGB (canvas_width, nat canvas_height) white))"

text \<open>
  \<open>canvas.crop((left, upper, right, lower))\<close> on the canvas: the crop, unless the library
  refuses a result of that size.
\<close>

definition crop_canvas :: "pil \<Rightarrow> image \<Rightarrow> int \<times> int \<times> int \<times> int \<Rightarrow> error + image" where
  "crop_canvas P canvas box =
     (case box of (left, upper, right, lower) \<Rightarrow>
        (case crop_refused P (nat (right - left), nat (lower - upper)) of
           Some e \<Rightarrow> Inl e
         | None \<Rightarrow> Inr (Image_crop canvas box)))"

text \<open>\<open>ImageCompositor._find_actual_width\<close>\<close>

definition find_actual_width :: "pil \<Rightarrow> image \<Rightarrow> nat" where
  "find_actual_width P im0 =
     (let im = (if mode im0 \<noteq> RGB then Image_convert_RGB P im0 else im0);
          px = pixels im; w = width im; h = height im
      in case find (\<lambda>x. list_ex (\<lambda>y. case px (x, y) of (r, g, b, a) \<Rightarrow>
                        \<not> (uint r > 250 \<and> uint g > 250 \<and> uint b > 250)) [0..<h])
                   (rev [0..<w]) of
           Some x \<Rightarrow> x + 1
         | None \<Rightarrow> 1)"

text \<open>\<open>ImageCompositor._paste_centered\<close>; \<open>//\<close> is floor division, as \<open>div\<close> is.\<close>

definition paste_centered :: "pil \<Rightarrow> image \<Rightarrow> image \<Rightarrow> int \<Rightarrow> image" where
  "paste_centered P canvas im y_offset =
     (let x_offset = (int (width canvas) - int (width im)) div 2
      in Image_paste P canvas im (x_offset, y_offset))"

text \<open>
  The paste loops of the two policies: the canvas and the vertical cursor \<open>y_offset\<close>
  are the loop's state.
\<close>

fun paste_flush_left :: "pil \<Rightarrow> compositor \<Rightarrow> image \<Rightarrow> int \<Rightarrow> image list \<Rightarrow> image" where
  "paste_flush_left P self canvas y_offset [] = canvas"
| "paste_flush_left P self canvas y_offset (im # images) =
     paste_flush_left P self (Image_paste P canvas im (0, y_offset))
       (y_offset + (int (height im) + spacing self)) images"

fun paste_all_centered :: "pil \<Rightarrow> compositor \<Rightarrow> image \<Rightarrow> int \<Rightarrow> image list \<Rightarrow> image" where
  "paste_all_centered P self canvas y_offset [] = canvas"
| "paste_all_centered P self canvas y_offset (im # images) =
     paste_all_centered P self (paste_centered P canvas im y_offset)
       (y_offset + (int (height im) + spacing self)) images"

text \<open>\<open>ImageCompositor._compose_auto_width\<close>\<close>

definition compose_auto_width :: "pil \<Rightarrow> compositor \<Rightarrow> image list \<Rightarrow> error + image" where
  "compose_auto_width P self images =
     (let th = total_height self images
      in case py_max (map width images) of
           Inl e \<Rightarrow> Inl e
         | Inr max_width \<Rightarrow>
             (case new_canvas P max_width th of
                Inl e \<Rightarrow> Inl e
              | Inr canvas0 \<Rightarrow>
                  (let canvas = paste_flush_left P self canvas0 0 images;
                       actual_width = find_actual_width P canvas
                   in if actual_width < max_width
                      then crop_canvas P canvas (0, 0, int actual_width, th)
                      else Inr canvas)))"

text \<open>\<open>ImageCompositor._compose_fixed_width\<close>\<close>

definition compose_fixed_width :: "pil \<Rightarrow> compositor \<Rightarrow> image list \<Rightarrow> error + image" where
  "compose_fixed_width P self images =
     (case calculate_canvas_size self images of
        Inl e \<Rightarrow> Inl e
      | Inr (canvas_width, canvas_height) \<Rightarrow>
          (case new_canvas P canvas_width canvas_height of
             Inl e \<Rightarrow> Inl e
           | Inr canvas \<Rightarrow> Inr (paste_all_centered P self canvas 0 images)))"

text \<open>
  \<open>ImageCompositor.compose\<close>. The empty list is refused before the \<open>try\<close>; an
  exception raised inside it is wrapped.
\<close>

definition compose :: "pil \<Rightarrow> compositor \<Rightarrow> image list \<Rightarrow> error + image" where
  "compose P self images =
     (if images = [] then Inl (CompositionError ''Cannot compose empty image list'')
      else case (if auto_width self then compose_auto_width P self images
                 else compose_fixed_width P self images) of
             Inl e \<Rightarrow> Inl (CompositionError (''Failed to compose images: '' @ str e))
           | Inr canvas \<Rightarrow> Inr canvas)"

section \<open>Sample inputs\<close>

text \<open>
  The three pages of the compositor's tests: red 100 by 50, green 150 by 60, blue 80 by 40.
\<close>

definition red :: pixel where "red = (255, 0, 0, 255)"
definition green :: pixel where "green = (0, 255, 0, 255)"
definition blue :: pixel where "blue = (0, 0, 255, 255)"

definition three_pages :: "image list" where
  "three_pages =
     [Image_new RGB (100, 50) red, Image_new RGB (150, 60) green, Image_new RGB (80, 40) blue]"

text \<open>A 4 by 4 white page with two black pixels, at (1, 2) and (2, 1).\<close>

definition sample_pixels :: "nat \<times> nat \<Rightarrow> pixel" where
  "sample_pixels =
     (\<lambda>(x, y). if (x = 1 \<and> y = 2) \<or> (x = 2 \<and> y = 1) then (0, 0, 0, 255) else white)"

definition sample_page :: image where
  "sample_page = \<lparr>mode = RGB, width = 4, height = 4, pixels = sample_pixels\<rparr>"

text \<open>A blank page, a page of no pixels, and a renderer that keeps a margin of 1.\<close>

definition blank_page :: image where
  "blank_page = Image_new RGB (3, 2) white"

definition empty_page :: image where
  "empty_page = Image_new RGB (0, 0) white"

definition sample_renderer :: renderer where
  "sample_renderer = \<lparr>dpi = 150, auto_crop = True, crop_margin = 1\<rparr>"

text \<open>Two blank pages, the sample page above a narrower red one, and two pages of 2 by 1.\<close>

definition small_pages :: "image list" where
  "small_pages = [Image_new RGB (2, 1) red, Image_new RGB (2, 1) white]"

definition white_pages :: "image list" where
  "white_pages = [Image_new RGB (3, 2) white, Image_new RGB (2, 4) white]"

definition narrow_pages :: "image list" where
  "narrow_pages = [sample_page, Image_new RGB (2, 1) red]"

text \<open>A rasterizer that returns two pages, and a callback that counts its calls.\<close>

definition two_page_document :: "string \<Rightarrow> int \<Rightarrow> error + image list" where
  "two_page_document pdf_path d = Inr [sample_page, blank_page]"

definition counting_callback :: "nat callback" where
  "counting_callback current_page total_pages n = (None, n + 1)"

text \<open>
  A stand-in for the imaging library: its two pixel computations, memory for an image of
  \<open>2\<^sup>2\<^sup>8\<close> pixels, and a crop that refuses more than 178956970 pixels.
\<close>

definition sample_pil :: pil where
  "sample_pil =
     \<lparr>convert_pixel = (\<lambda>m (r, g, b, a). (r, g, b, 255)),
      blend = (\<lambda>a d s. word_of_int ((uint s * uint a + uint d * (255 - uint a)) div 255)),
      new_refused = (\<lambda>(w, h). if w * h > 268435456 then Some (MemoryError []) else None),
      crop_refused = (\<lambda>(w, h). if max 1 w * max 1 h > 178956970
                       then Some (OtherException ''Image size exceeds limit'') else None)\<rparr>"

section \<open>One loop for both policies\<close>

text \<open>
  For the proofs only: the two paste loops differ in the horizontal offset alone, here a
  function \<open>xo\<close> of the canvas's width and the page.
\<close>

fun paste_each :: "pil \<Rightarrow> int \<Rightarrow> (nat \<Rightarrow> image \<Rightarrow> int) \<Rightarrow> image \<Rightarrow> int \<Rightarrow> image list \<Rightarrow> image" where
  "paste_each P s xo canvas y_offset [] = canvas"
| "paste_each P s xo canvas y_offset (im # images) =
     paste_each P s xo (Image_paste P canvas im (xo (width canvas) im, y_offset))
       (y_offset + (int (height im) + s)) images"

section \<open>Scanning a range\<close>

lemma find_upt_Some:
  "find P [0..<n] = Some x \<longleftrightarrow> x < n \<and> P x \<and> (\<forall>j<x. \<not> P j)"
  by (auto simp: find_Some_iff)

lemma find_rev_upt_Some:
  "find P (rev [0..<n]) = Some x \<longleftrightarrow> x < n \<and> P x \<and> (\<forall>j. x < j \<and> j < n \<longrightarrow> \<not> P j)"
proof (induction n)
  case 0
  show ?case by simp
next
  case (Suc n)
  show ?case
  proof (cases "P n")
    case True
    then show ?thesis by (auto simp: less_Suc_eq)
  next
    case False
    then show ?thesis using Suc by (auto simp: less_Suc_eq)
  qed
qed

lemma find_upt_None: "find P [0..<n] = None \<longleftrightarrow> (\<forall>x<n. \<not> P x)"
  by (auto simp: find_None_iff)

lemma find_rev_upt_None: "find P (rev [0..<n]) = None \<longleftrightarrow> (\<forall>x<n. \<not> P x)"
  by (auto simp: find_None_iff)

lemma list_ex_upt: "list_ex Q [0..<n] \<longleftrightarrow> (\<exists>i<n. Q i)"
  by (auto simp: list_ex_iff)


section \<open>Boundary detection\<close>

lemma left_boundary_content:
  assumes "x0 < w" "y0 < h" "\<not> is_white_pixel (px (x0, y0)) 250"
  shows "find_left_boundary px w h \<le> x0"
    and "\<exists>y<h. \<not> is_white_pixel (px (find_left_boundary px w h, y)) 250"
proof -
  let ?P = "\<lambda>x. list_ex (\<lambda>y. \<not> is_white_pixel (px (x, y)) 250) [0..<h]"
  have P0: "?P x0" using assms by (auto simp: list_ex_upt)
  then have "find ?P [0..<w] \<noteq> None" using assms(1) by (auto simp: find_upt_None)
  then obtain x where x: "find ?P [0..<w] = Some x" by blast
  then have fx: "x < w" "?P x" "\<forall>j<x. \<not> ?P j" by (simp_all add: find_upt_Some)
  have "\<not> x0 < x" using fx(3) P0 by blast
  moreover have "find_left_boundary px w h = x" using x by (simp add: find_left_boundary_def)
  ultimately show "find_left_boundary px w h \<le> x0"
    and "\<exists>y<h. \<not> is_white_pixel (px (find_left_boundary px w h, y)) 250"
    using fx(2) by (simp_all add: list_ex_upt)
qed

lemma right_boundary_content:
  assumes "x0 < w" "y0 < h" "\<not> is_white_pixel (px (x0, y0)) 250"
  shows "x0 < find_right_boundary px w h"
    and "find_right_boundary px w h \<le> w"
    and "\<exists>y<h. \<not> is_white_pixel (px (find_right_boundary px w h - 1, y)) 250"
proof -
  let ?P = "\<lambda>x. list_ex (\<lambda>y. \<not> is_white_pixel (px (x, y)) 250) [0..<h]"
  have P0: "?P x0" using assms by (auto simp: list_ex_upt)
  then have "find ?P (rev [0..<w]) \<noteq> None" using assms(1) by (auto simp: find_rev_upt_None)
  then obtain x where x: "find ?P (rev [0..<w]) = Some x" by blast
  then have fx: "x < w" "?P x" "\<forall>j. x < j \<and> j < w \<longrightarrow> \<not> ?P j" by (simp_all add: find_rev_upt_Some)
  have "\<not> x < x0" using fx(3) P0 assms(1) by blast
  moreover have "find_right_boundary px w h = x + 1" using x by (simp add: find_right_boundary_def)
  ultimately show "x0 < find_right_boundary px w h"
    and "find_right_boundary px w h \<le> w"
    and "\<exists>y<h. \<not> is_white_pixel (px (find_right_boundary px w h - 1, y)) 250"
    using fx(1,2) by (simp_all add: list_ex_upt)
qed

lemma top_boundary_content:
  assumes "x0 < w" "y0 < h" "\<not> is_white_pixel (px (x0, y0)) 250"
  shows "find_top_boundary px w h \<le> y0"
    and "\<exists>x<w. \<not> is_white_pixel (px (x, find_top_boundary px w h)) 250"
proof -
  let ?P = "\<lambda>y. list_ex (\<lambda>x. \<not> is_white_pixel (px (x, y)) 250) [0..<w]"
  have P0: "?P y0" using assms by (auto simp: list_ex_upt)
  then have "find ?P [0..<h] \<noteq> None" using assms(2) by (auto simp: find_upt_None)
  then obtain y where y: "find ?P [0..<h] = Some y" by blast
  then have fy: "y < h" "?P y" "\<forall>j<y. \<not> ?P j" by (simp_all add: find_upt_Some)
  have "\<not> y0 < y" using fy(3) P0 by blast
  moreover have "find_top_boundary px w h = y" using y by (simp add: find_top_boundary_def)
  ultimately show "find_top_boundary px w h \<le> y0"
    and "\<exists>x<w. \<not> is_white_pixel (px (x, find_top_boundary px w h)) 250"
    using fy(2) by (simp_all add: list_ex_upt)
qed

lemma bottom_boundary_content:
  assumes "x0 < w" "y0 < h" "\<not> is_white_pixel (px (x0, y0)) 250"
  shows "y0 < find_bottom_boundary px w h"
    and "find_bottom_boundary px w h \<le> h"
    and "\<exists>x<w. \<not> is_white_pixel (px (x, find_bottom_boundary px w h - 1)) 250"
proof -
  let ?P = "\<lambda>y. list_ex (\<lambda>x. \<not> is_white_pixel (px (x, y)) 250) [0..<w]"
  have P0: "?P y0" using assms by (auto simp: list_ex_upt)
  then have "find ?P (rev [0..<h]) \<noteq> None" using assms(2) by (auto simp: find_rev_upt_None)
  then obtain y where y: "find ?P (rev [0..<h]) = Some y" by blast
  then have fy: "y < h" "?P y" "\<forall>j. y < j \<and> j < h \<longrightarrow> \<not> ?P j" by (simp_all add: find_rev_upt_Some)
  have "\<not> y < y0" using fy(3) P0 assms(2) by blast
  moreover have "find_bottom_boundary px w h = y + 1" using y by (simp add: find_bottom_boundary_def)
  ultimately show "y0 < find_bottom_boundary px w h"
    and "find_bottom_boundary px w h \<le> h"
    and "\<exists>x<w. \<not> is_white_pixel (px (x, find_bottom_boundary px w h - 1)) 250"
    using fy(1,2) by (simp_all add: list_ex_upt)
qed


lemma content_box:
  assumes "x0 < w" and "y0 < h" and "\<not> is_white_pixel (px (x0, y0)) 250"
  shows "find_left_boundary px w h < find_right_boundary px w h"
    and "find_right_boundary px w h \<le> w"
    and "find_top_boundary px w h < find_bottom_boundary px w h"
    and "find_bottom_boundary px w h \<le> h"
    and "\<forall>x<w. \<forall>y<h. \<not> is_white_pixel (px (x, y)) 250 \<longrightarrow>
             find_left_boundary px w h \<le> x \<and> x < find_right_boundary px w h
           \<and> find_top_boundary px w h \<le> y \<and> y < find_bottom_boundary px w h"
    and "\<exists>y<h. \<not> is_white_pixel (px (find_left_boundary px w h, y)) 250"
    and "\<exists>y<h. \<not> is_white_pixel (px (find_right_boundary px w h - 1, y)) 250"
    and "\<exists>x<w. \<not> is_white_pixel (px (x, find_top_boundary px w h)) 250"
    and "\<exists>x<w. \<not> is_white_pixel (px (x, find_bottom_boundary px w h - 1)) 250"
proof -
  note l = left_boundary_content [where px = px] and r = right_boundary_content [where px = px]
    and t = top_boundary_content [where px = px] and b = bottom_boundary_content [where px = px]
  note l0 = l [OF assms] and r0 = r [OF assms] and t0 = t [OF assms] and b0 = b [OF assms]
  show "find_left_boundary px w h < find_right_boundary px w h"
    using l0(1) r0(1) by simp
  show "find_top_boundary px w h < find_bottom_boundary px w h"
    using t0(1) b0(1) by simp
  show "\<forall>x<w. \<forall>y<h. \<not> is_white_pixel (px (x, y)) 250 \<longrightarrow>
             find_left_boundary px w h \<le> x \<and> x < find_right_boundary px w h
           \<and> find_top_boundary px w h \<le> y \<and> y < find_bottom_boundary px w h"
  proof (intro allI impI)
    fix x y assume a: "x < w" "y < h" "\<not> is_white_pixel (px (x, y)) 250"
    show "find_left_boundary px w h \<le> x \<and> x < find_right_boundary px w h
           \<and> find_top_boundary px w h \<le> y \<and> y < find_bottom_boundary px w h"
      using l(1) [OF a] r(1) [OF a] t(1) [OF a] b(1) [OF a] by simp
  qed
  show "find_right_boundary px w h \<le> w" by (rule r0(2))
  show "find_bottom_boundary px w h \<le> h" by (rule b0(2))
  show "\<exists>y<h. \<not> is_white_pixel (px (find_left_boundary px w h, y)) 250" by (rule l0(2))
  show "\<exists>y<h. \<not> is_white_pixel (px (find_right_boundary px w h - 1, y)) 250" by (rule r0(3))
  show "\<exists>x<w. \<not> is_white_pixel (px (x, find_top_boundary px w h)) 250" by (rule t0(2))
  show "\<exists>x<w. \<not> is_white_pixel (px (x, find_bottom_boundary px w h - 1)) 250" by (rule b0(3))
qed

text \<open>
  C3. On a bitmap with at least one pixel that is not background, the four scans (threshold
  250, a pixel being background exactly when its three colour channels are all above the
  threshold) give the tightest box, right and bottom exclusive: it lies within the bitmap,
  every pixel that is not background is inside it, and column \<open>left\<close>, column
  \<open>right - 1\<close>, row \<open>top\<close> and row \<open>bottom - 1\<close> each hold such a pixel.
\<close>

theorem boundary_box_tightest:
  assumes "x0 < w" and "y0 < h" and "\<not> is_white_pixel (px (x0, y0)) 250"
  shows "(\<forall>r g b a. is_white_pixel (r, g, b, a) 250 \<longleftrightarrow> uint r > 250 \<and> uint g > 250 \<and> uint b > 250)
       \<and> find_left_boundary px w h < find_right_boundary px w h
       \<and> find_right_boundary px w h \<le> w
       \<and> find_top_boundary px w h < find_bottom_boundary px w h
       \<and> find_bottom_boundary px w h \<le> h
       \<and> (\<forall>x<w. \<forall>y<h. \<not> is_white_pixel (px (x, y)) 250 \<longrightarrow>
             find_left_boundary px w h \<le> x \<and> x < find_right_boundary px w h
           \<and> find_top_boundary px w h \<le> y \<and> y < find_bottom_boundary px w h)
       \<and> (\<exists>y<h. \<not> is_white_pixel (px (find_left_boundary px w h, y)) 250)
       \<and> (\<exists>y<h. \<not> is_white_pixel (px (find_right_boundary px w h - 1, y)) 250)
       \<and> (\<exists>x<w. \<not> is_white_pixel (px (x, find_top_boundary px w h)) 250)
       \<and> (\<exists>x<w. \<not> is_white_pixel (px (x, find_bottom_boundary px w h - 1)) 250)"
proof -
  note box = content_box [where px = px, OF assms]
  have "\<forall>r g b a. is_white_pixel (r, g, b, a) 250 \<longleftrightarrow> uint r > 250 \<and> uint g > 250 \<and> uint b > 250"
    by (simp add: is_white_pixel_def)
  then show ?thesis
    using box by (intro conjI) assumption+
qed

theorem boundary_box_tightest_witness:
  "(1::nat) < 4 \<and> (2::nat) < 4 \<and> \<not> is_white_pixel (sample_pixels (1, 2)) 250
   \<and> find_left_boundary sample_pixels 4 4 < find_right_boundary sample_pixels 4 4
   \<and> find_top_boundary sample_pixels 4 4 < find_bottom_boundary sample_pixels 4 4
   \<and> (\<exists>y<4. \<not> is_white_pixel (sample_pixels (find_left_boundary sample_pixels 4 4, y)) 250)"
proof -
  have h: "(1::nat) < 4" "(2::nat) < 4" "\<not> is_white_pixel (sample_pixels (1, 2)) 250"
    by (simp_all add: sample_pixels_def is_white_pixel_def)
  show ?thesis
    using h boundary_box_tightest [where px = sample_pixels, OF h] by simp
qed

section \<open>Cropping to the content box\<close>

lemma Image_crop_size [simp]:
  "width (Image_crop im (l, t, r, b)) = nat (r - l)"
  "height (Image_crop im (l, t, r, b)) = nat (b - t)"
  "mode (Image_crop im (l, t, r, b)) = mode im"
  by (simp_all add: Image_crop_def)

lemma Image_crop_pixels:
  assumes "l + x < width im" "t + y < height im"
  shows "pixels (Image_crop im (int l, int t, r, b)) (x, y) = pixels im (l + x, t + y)"
  using assms by (simp add: Image_crop_def Let_def nat_add_distrib)

lemma crop_to_box_fixed_point_aux:
  assumes "x0 < width im" and "y0 < height im"
    and "\<not> is_white_pixel (pixels im (x0, y0)) 250"
  defines "l \<equiv> find_left_boundary (pixels im) (width im) (height im)"
    and "r \<equiv> find_right_boundary (pixels im) (width im) (height im)"
    and "t \<equiv> find_top_boundary (pixels im) (width im) (height im)"
    and "b \<equiv> find_bottom_boundary (pixels im) (width im) (height im)"
  defines "c \<equiv> Image_crop im (int l, int t, int r, int b)"
  shows "find_left_boundary (pixels c) (width c) (height c) = 0"
    and "find_right_boundary (pixels c) (width c) (height c) = width c"
    and "find_top_boundary (pixels c) (width c) (height c) = 0"
    and "find_bottom_boundary (pixels c) (width c) (height c) = height c"
    and "0 < width c" and "0 < height c"
proof -
  note box = content_box [where px = "pixels im", OF assms(1-3), folded l_def r_def t_def b_def]
  have lr: "l < r" "r \<le> width im" and tb: "t < b" "b \<le> height im" using box by simp_all
  have inside: "\<And>x y. x < width im \<Longrightarrow> y < height im \<Longrightarrow> \<not> is_white_pixel (pixels im (x, y)) 250
      \<Longrightarrow> l \<le> x \<and> x < r \<and> t \<le> y \<and> y < b"
    using box by blast
  have wc: "width c = r - l" and hc: "height c = b - t"
    using lr tb by (simp_all add: c_def)
  show "0 < width c" "0 < height c" using wc hc lr tb by simp_all
  have px: "pixels c (x - l, y - t) = pixels im (x, y)"
    if "l \<le> x" "x < r" "t \<le> y" "y < b" for x y
    using that lr tb Image_crop_pixels [of l "x - l" im t "y - t" "int r" "int b"]
    by (simp add: c_def)
  have nonwhite: "x - l < width c \<and> y - t < height c \<and> \<not> is_white_pixel (pixels c (x - l, y - t)) 250"
    if "x < width im" "y < height im" "\<not> is_white_pixel (pixels im (x, y)) 250" for x y
    using inside [OF that] that px [of x y] wc hc by auto
  obtain yl where yl: "yl < height im" "\<not> is_white_pixel (pixels im (l, yl)) 250"
    using box by blast
  have "l < width im" using lr by simp
  from nonwhite [OF this yl]
  have "find_left_boundary (pixels c) (width c) (height c) \<le> l - l"
    using left_boundary_content(1) [where px = "pixels c"] by blast
  then show "find_left_boundary (pixels c) (width c) (height c) = 0" by simp
  obtain yr where yr: "yr < height im" "\<not> is_white_pixel (pixels im (r - 1, yr)) 250"
    using box by blast
  have "r - 1 < width im" using lr by simp
  from nonwhite [OF this yr]
  have "r - 1 - l < find_right_boundary (pixels c) (width c) (height c)"
    "find_right_boundary (pixels c) (width c) (height c) \<le> width c"
    using right_boundary_content(1,2) [where px = "pixels c"] by blast+
  then show "find_right_boundary (pixels c) (width c) (height c) = width c"
    using wc lr by simp
  obtain xt where xt: "xt < width im" "\<not> is_white_pixel (pixels im (xt, t)) 250"
    using box by blast
  have "t < height im" using tb by simp
  from nonwhite [OF xt(1) this xt(2)]
  have "find_top_boundary (pixels c) (width c) (height c) \<le> t - t"
    using top_boundary_content(1) [where px = "pixels c"] by blast
  then show "find_top_boundary (pixels c) (width c) (height c) = 0" by simp
  obtain xb where xb: "xb < width im" "\<not> is_white_pixel (pixels im (xb, b - 1)) 250"
    using box by blast
  have "b - 1 < height im" using tb by simp
  from nonwhite [OF xb(1) this xb(2)]
  have "b - 1 - t < find_bottom_boundary (pixels c) (width c) (height c)"
    "find_bottom_boundary (pixels c) (width c) (height c) \<le> height c"
    using bottom_boundary_content(1,2) [where px = "pixels c"] by blast+
  then show "find_bottom_boundary (pixels c) (width c) (height c) = height c"
    using hc tb by simp
qed

text \<open>
  C8. Detection is a fixed point under cropping: when a bitmap has a pixel that is not
  background, the bitmap cropped to its detected box (which is what \<open>_crop_whitespace\<close>
  returns for an RGB bitmap at margin 0) is not empty, and detection on it returns the box
  \<open>(0, 0, width, height)\<close>.
\<close>

theorem crop_to_content_fixed_point:
  assumes "x0 < width im" and "y0 < height im"
    and "\<not> is_white_pixel (pixels im (x0, y0)) 250"
  shows "let c = Image_crop im
                   (int (find_left_boundary (pixels im) (width im) (height im)),
                    int (find_top_boundary (pixels im) (width im) (height im)),
                    int (find_right_boundary (pixels im) (width im) (height im)),
                    int (find_bottom_boundary (pixels im) (width im) (height im)))
         in (mode im = RGB \<and> crop_margin self = 0 \<longrightarrow> crop_whitespace P self im = c)
          \<and> 0 < width c \<and> 0 < height c
          \<and> find_left_boundary (pixels c) (width c) (height c) = 0
          \<and> find_top_boundary (pixels c) (width c) (height c) = 0
          \<and> find_right_boundary (pixels c) (width c) (height c) = width c
          \<and> find_bottom_boundary (pixels c) (width c) (height c) = height c"
proof -
  note fp = crop_to_box_fixed_point_aux [OF assms]
  note box = content_box [where px = "pixels im", OF assms]
  have "crop_whitespace P self im = Image_crop im
                   (int (find_left_boundary (pixels im) (width im) (height im)),
                    int (find_top_boundary (pixels im) (width im) (height im)),
                    int (find_right_boundary (pixels im) (width im) (height im)),
                    int (find_bottom_boundary (pixels im) (width im) (height im)))"
    if "mode im = RGB" "crop_margin self = 0"
    using that box(1-4) by (simp add: crop_whitespace_def Let_def min_def max_def)
  then show ?thesis
    unfolding Let_def using fp by (intro conjI impI) simp_all
qed

theorem crop_to_content_fixed_point_witness:
  "(1::nat) < width sample_page \<and> 2 < height sample_page
   \<and> \<not> is_white_pixel (pixels sample_page (1, 2)) 250
   \<and> (let c = crop_whitespace sample_pil \<lparr>dpi = 150, auto_crop = True, crop_margin = 0\<rparr> sample_page
      in find_left_boundary (pixels c) (width c) (height c) = 0
       \<and> find_top_boundary (pixels c) (width c) (height c) = 0
       \<and> find_right_boundary (pixels c) (width c) (height c) = width c
       \<and> find_bottom_boundary (pixels c) (width c) (height c) = height c)"
proof -
  have h: "(1::nat) < width sample_page" "2 < height sample_page"
    "\<not> is_white_pixel (pixels sample_page (1, 2)) 250"
    by (simp_all add: sample_page_def sample_pixels_def is_white_pixel_def)
  have m: "mode sample_page = RGB" by (simp add: sample_page_def)
  show ?thesis
    using h m crop_to_content_fixed_point [OF h, of "\<lparr>dpi = 150, auto_crop = True, crop_margin = 0\<rparr>" sample_pil]
    by (simp add: Let_def)
qed

section \<open>Normalizing a page\<close>

lemma all_white_boundaries:
  assumes "\<forall>x<w. \<forall>y<h. is_white_pixel (px (x, y)) 250"
  shows "find_left_boundary px w h = 0" and "find_right_boundary px w h = w"
    and "find_top_boundary px w h = 0" and "find_bottom_boundary px w h = h"
proof -
  have c: "find (\<lambda>x. list_ex (\<lambda>y. \<not> is_white_pixel (px (x, y)) 250) [0..<h]) xs = None"
    if "set xs \<subseteq> {0..<w}" for xs
    using that assms by (auto simp: find_None_iff list_ex_upt)
  have r: "find (\<lambda>y. list_ex (\<lambda>x. \<not> is_white_pixel (px (x, y)) 250) [0..<w]) ys = None"
    if "set ys \<subseteq> {0..<h}" for ys
    using that assms by (auto simp: find_None_iff list_ex_upt)
  show "find_left_boundary px w h = 0" by (simp add: find_left_boundary_def c)
  show "find_right_boundary px w h = w" by (simp add: find_right_boundary_def c)
  show "find_top_boundary px w h = 0" by (simp add: find_top_boundary_def r)
  show "find_bottom_boundary px w h = h" by (simp add: find_bottom_boundary_def r)
qed

lemma ensure_white_background_size [simp]:
  "width (ensure_white_background P im) = width im"
  "height (ensure_white_background P im) = height im"
  "mode (ensure_white_background P im) = RGB"
  by (cases "mode im"; simp add: ensure_white_background_def Image_new_def Image_paste_alpha_def
        Image_convert_RGB_def Let_def)+

lemma ensure_white_background_RGB: "mode im = RGB \<Longrightarrow> ensure_white_background P im = im"
  by (simp add: ensure_white_background_def)

lemma crop_whitespace_size:
  "width (crop_whitespace P self im) \<le> width im"
  "height (crop_whitespace P self im) \<le> height im"
  "1 \<le> width im \<Longrightarrow> 1 \<le> width (crop_whitespace P self im)"
  "1 \<le> height im \<Longrightarrow> 1 \<le> height (crop_whitespace P self im)"
  by (auto simp: crop_whitespace_def Let_def Image_convert_RGB_def)


lemma process_image_auto_crop:
  "auto_crop self \<Longrightarrow>
     process_image P self im = crop_whitespace P self (ensure_white_background P im)"
  by (simp add: process_image_def)

lemma crop_whitespace_RGB:
  assumes "mode im = RGB"
  shows "crop_whitespace P self im =
     (let w = width im; h = height im;
          left = max 0 (int (find_left_boundary (pixels im) w h) - crop_margin self);
          upper = max 0 (int (find_top_boundary (pixels im) w h) - crop_margin self);
          right = min (int w) (int (find_right_boundary (pixels im) w h) + crop_margin self);
          lower = min (int h) (int (find_bottom_boundary (pixels im) w h) + crop_margin self)
      in if left < right \<and> upper < lower then Image_crop im (left, upper, right, lower) else im)"
  using assms by (simp add: crop_whitespace_def Let_def)

lemma Image_crop_inside:
  assumes "0 \<le> l" "r \<le> int (width im)" "0 \<le> t" "b \<le> int (height im)"
    and "x < width (Image_crop im (l, t, r, b))" "y < height (Image_crop im (l, t, r, b))"
  shows "pixels (Image_crop im (l, t, r, b)) (x, y) = pixels im (nat l + x, nat t + y)"
proof -
  have "x < nat (r - l)" "y < nat (b - t)" using assms(5,6) by simp_all
  then have "l + int x < int (width im)" "t + int y < int (height im)"
    using assms(1-4) by linarith+
  then show ?thesis using assms(1,3) by (simp add: Image_crop_def Let_def nat_add_distrib)
qed

text \<open>
  C4. With \<open>auto_crop\<close> on and a margin that is not negative, the renderer flattens the
  page and then: the detected box, widened by the margin on each side and clamped to the
  bitmap, stays within the bitmap; when that box has positive area the result is the crop
  to it, pixel for pixel; otherwise the flattened bitmap itself is returned; and a bitmap
  that is all background comes back with its mode, its size and every pixel as they were.
  Flattening returns an RGB bitmap as it is.
\<close>

theorem crop_whitespace_margin:
  assumes "0 \<le> crop_margin self" and "auto_crop self"
  shows "let flat = ensure_white_background P im;
             w = width flat; h = height flat;
             left = max 0 (int (find_left_boundary (pixels flat) w h) - crop_margin self);
             upper = max 0 (int (find_top_boundary (pixels flat) w h) - crop_margin self);
             right = min (int w) (int (find_right_boundary (pixels flat) w h) + crop_margin self);
             lower = min (int h) (int (find_bottom_boundary (pixels flat) w h) + crop_margin self);
             out = process_image P self im
         in mode flat = RGB \<and> w = width im \<and> h = height im \<and> (mode im = RGB \<longrightarrow> flat = im)
          \<and> 0 \<le> left \<and> right \<le> int w \<and> 0 \<le> upper \<and> lower \<le> int h
          \<and> (left < right \<and> upper < lower \<longrightarrow>
                out = Image_crop flat (left, upper, right, lower)
              \<and> (\<forall>x<width out. \<forall>y<height out.
                    pixels out (x, y) = pixels flat (nat left + x, nat upper + y)))
          \<and> (\<not> (left < right \<and> upper < lower) \<longrightarrow> out = flat)
          \<and> ((\<forall>x<w. \<forall>y<h. is_white_pixel (pixels flat (x, y)) 250) \<longrightarrow>
                mode out = mode flat \<and> width out = w \<and> height out = h
              \<and> (\<forall>x<w. \<forall>y<h. pixels out (x, y) = pixels flat (x, y)))"
proof -
  define flat where "flat = ensure_white_background P im"
  define w where "w = width flat"
  define h where "h = height flat"
  define left where "left = max 0 (int (find_left_boundary (pixels flat) w h) - crop_margin self)"
  define upper where "upper = max 0 (int (find_top_boundary (pixels flat) w h) - crop_margin self)"
  define right where
    "right = min (int w) (int (find_right_boundary (pixels flat) w h) + crop_margin self)"
  define lower where
    "lower = min (int h) (int (find_bottom_boundary (pixels flat) w h) + crop_margin self)"
  define out where "out = process_image P self im"
  have flat: "mode flat = RGB" "w = width im" "h = height im"
    by (simp_all add: flat_def w_def h_def)
  have same: "mode im = RGB \<longrightarrow> flat = im"
    by (simp add: flat_def ensure_white_background_RGB)
  have bounds: "0 \<le> left" "right \<le> int w" "0 \<le> upper" "lower \<le> int h"
    by (simp_all add: left_def right_def upper_def lower_def)
  have out: "out = (if left < right \<and> upper < lower
                    then Image_crop flat (left, upper, right, lower) else flat)"
    using assms(2) flat(1)
    by (simp add: out_def process_image_auto_crop crop_whitespace_RGB flat_def [symmetric]
          Let_def w_def [symmetric] h_def [symmetric] left_def right_def upper_def lower_def)
  have crop: "out = Image_crop flat (left, upper, right, lower)
              \<and> (\<forall>x<width out. \<forall>y<height out.
                    pixels out (x, y) = pixels flat (nat left + x, nat upper + y))"
    if "left < right \<and> upper < lower"
    using that out bounds Image_crop_inside [of left right flat upper lower]
    by (simp add: w_def h_def)
  have keep: "\<not> (left < right \<and> upper < lower) \<longrightarrow> out = flat"
    using out by simp
  have blank: "mode out = mode flat \<and> width out = w \<and> height out = h
              \<and> (\<forall>x<w. \<forall>y<h. pixels out (x, y) = pixels flat (x, y))"
    if aw: "\<forall>x<w. \<forall>y<h. is_white_pixel (pixels flat (x, y)) 250"
  proof -
    note b = all_white_boundaries [OF aw]
    have box: "left = 0" "upper = 0" "right = int w" "lower = int h"
      using assms(1) by (simp_all add: left_def upper_def right_def lower_def b)
    show ?thesis
    proof (cases "left < right \<and> upper < lower")
      case True
      then have "out = Image_crop flat (0, 0, int w, int h)" using out box by simp
      then show ?thesis by (simp add: Image_crop_def w_def h_def)
    next
      case False
      then have "out = flat" using keep by blast
      then show ?thesis by (simp add: w_def h_def)
    qed
  qed
  show ?thesis
    unfolding Let_def flat_def [symmetric] w_def [symmetric] h_def [symmetric]
      left_def [symmetric] upper_def [symmetric] right_def [symmetric] lower_def [symmetric]
      out_def [symmetric]
    using flat same bounds crop keep blank by (intro conjI impI) blast+
qed


lemma sample_page_boundaries:
  "find_left_boundary sample_pixels 4 4 = 1"
  "find_top_boundary sample_pixels 4 4 = 1"
  "find_right_boundary sample_pixels 4 4 = 3"
  "find_bottom_boundary sample_pixels 4 4 = 3"
  by (simp_all add: find_left_boundary_def find_top_boundary_def find_right_boundary_def
        find_bottom_boundary_def sample_pixels_def is_white_pixel_def white_def upt_conv_Cons)

theorem crop_whitespace_margin_witness:
  "0 \<le> crop_margin sample_renderer \<and> auto_crop sample_renderer
   \<and> process_image sample_pil sample_renderer sample_page = Image_crop sample_page (0, 0, 4, 4)
   \<and> (\<forall>x y. is_white_pixel (pixels blank_page (x, y)) 250)
   \<and> width (process_image sample_pil sample_renderer blank_page) = 3
   \<and> height (process_image sample_pil sample_renderer blank_page) = 2
   \<and> pixels (process_image sample_pil sample_renderer blank_page) (2, 1) = white
   \<and> process_image sample_pil sample_renderer empty_page = empty_page"
proof -
  have h: "0 \<le> crop_margin sample_renderer" "auto_crop sample_renderer"
    by (simp_all add: sample_renderer_def)
  have m: "mode sample_page = RGB" "mode blank_page = RGB" "mode empty_page = RGB"
    by (simp_all add: sample_page_def blank_page_def empty_page_def Image_new_def)
  have 1: "process_image sample_pil sample_renderer sample_page = Image_crop sample_page (0, 0, 4, 4)"
    using crop_whitespace_margin [OF h, of sample_pil sample_page]
    by (simp add: Let_def ensure_white_background_RGB m)
      (simp add: sample_page_def sample_page_boundaries sample_renderer_def)
  have w: "\<forall>x y. is_white_pixel (pixels blank_page (x, y)) 250"
    by (simp add: blank_page_def Image_new_def is_white_pixel_def white_def)
  have 2: "width (process_image sample_pil sample_renderer blank_page) = 3
   \<and> height (process_image sample_pil sample_renderer blank_page) = 2
   \<and> pixels (process_image sample_pil sample_renderer blank_page) (2, 1) = white"
    using crop_whitespace_margin [OF h, of sample_pil blank_page] w
    by (simp add: Let_def ensure_white_background_RGB m)
      (simp add: blank_page_def Image_new_def)
  have 3: "process_image sample_pil sample_renderer empty_page = empty_page"
    using crop_whitespace_margin [OF h, of sample_pil empty_page]
    by (simp add: Let_def ensure_white_background_RGB m)
      (simp add: empty_page_def Image_new_def)
  show ?thesis using h 1 w 2 3 by simp
qed

text \<open>
  C10. What the renderer does to a page never enlarges it, whatever \<open>auto_crop\<close> and
  \<open>crop_margin\<close> are: width and height do not grow, and a page of at least 1 by 1 stays
  at least 1 by 1. Flattening keeps the size exactly; cropping only shrinks it.
\<close>

theorem process_image_never_enlarges:
  "width (process_image P self im) \<le> width im
   \<and> height (process_image P self im) \<le> height im
   \<and> (1 \<le> width im \<and> 1 \<le> height im \<longrightarrow>
        1 \<le> width (process_image P self im) \<and> 1 \<le> height (process_image P self im))
   \<and> width (ensure_white_background P im) = width im
   \<and> height (ensure_white_background P im) = height im
   \<and> width (crop_whitespace P self im) \<le> width im
   \<and> height (crop_whitespace P self im) \<le> height im"
proof -
  let ?flat = "ensure_white_background P im"
  have "width (crop_whitespace P self ?flat) \<le> width im"
    "height (crop_whitespace P self ?flat) \<le> height im"
    using crop_whitespace_size(1,2) [of P self ?flat] by simp_all
  moreover have "1 \<le> width (crop_whitespace P self ?flat)" if "1 \<le> width im"
    using that crop_whitespace_size(3) [of ?flat P self] by simp
  moreover have "1 \<le> height (crop_whitespace P self ?flat)" if "1 \<le> height im"
    using that crop_whitespace_size(4) [of ?flat P self] by simp
  ultimately show ?thesis
    using crop_whitespace_size(1,2) [of P self im]
    by (simp add: process_image_def Let_def)
qed

theorem process_image_never_enlarges_witness:
  "1 \<le> width sample_page \<and> 1 \<le> height sample_page
   \<and> 1 \<le> width (process_image sample_pil sample_renderer sample_page)
   \<and> 1 \<le> height (process_image sample_pil sample_renderer sample_page)
   \<and> width (process_image sample_pil sample_renderer sample_page) \<le> 4
   \<and> height (process_image sample_pil sample_renderer sample_page) \<le> 4"
proof -
  have h: "1 \<le> width sample_page \<and> 1 \<le> height sample_page"
    "width sample_page = 4" "height sample_page = 4"
    by (simp_all add: sample_page_def)
  show ?thesis
    using h process_image_never_enlarges [of sample_pil sample_renderer sample_page]
    by simp
qed

section \<open>Pasting\<close>

lemma Image_paste_size [simp]:
  "width (Image_paste P canvas im pos) = width canvas"
  "height (Image_paste P canvas im pos) = height canvas"
  "mode (Image_paste P canvas im pos) = mode canvas"
  by (cases pos; simp add: Image_paste_def)+

lemma Image_paste_outside:
  assumes "int y < y0 \<or> y0 + int (height im) \<le> int y"
  shows "pixels (Image_paste P canvas im (x0, y0)) (x, y) = pixels canvas (x, y)"
  using assms by (auto simp: Image_paste_def Let_def)

lemma Image_paste_inside:
  assumes "x < width im" "y < height im" "0 \<le> x0" "0 \<le> y0"
    and "nat (x0 + int x) < width canvas" "nat (y0 + int y) < height canvas"
  shows "pixels (Image_paste P canvas im (x0, y0)) (nat (x0 + int x), nat (y0 + int y))
         = paste_source P im (x, y)"
  using assms by (simp add: Image_paste_def Let_def)

lemma paste_flush_left_each:
  "paste_flush_left P self canvas y images = paste_each P (spacing self) (\<lambda>w im. 0) canvas y images"
  by (induction images arbitrary: canvas y) simp_all

lemma paste_all_centered_each:
  "paste_all_centered P self canvas y images =
     paste_each P (spacing self) (\<lambda>w im. (int w - int (width im)) div 2) canvas y images"
  by (induction images arbitrary: canvas y) (simp_all add: paste_centered_def)

lemma paste_each_size [simp]:
  "width (paste_each P s xo canvas y images) = width canvas"
  "height (paste_each P s xo canvas y images) = height canvas"
  "mode (paste_each P s xo canvas y images) = mode canvas"
  by (induction images arbitrary: canvas y) simp_all

lemma paste_each_above:
  assumes "0 \<le> s" "int yy < y"
  shows "pixels (paste_each P s xo canvas y images) (x, yy) = pixels canvas (x, yy)"
  using assms
proof (induction images arbitrary: canvas y)
  case Nil
  show ?case by simp
next
  case (Cons im images)
  have "int yy < y + (int (height im) + s)" using Cons.prems by linarith
  then have "pixels (paste_each P s xo (Image_paste P canvas im (xo (width canvas) im, y))
               (y + (int (height im) + s)) images) (x, yy)
             = pixels (Image_paste P canvas im (xo (width canvas) im, y)) (x, yy)"
    using Cons.IH Cons.prems(1) by blast
  also have "\<dots> = pixels canvas (x, yy)"
    using Cons.prems(2) by (simp add: Image_paste_outside)
  finally show ?case by simp
qed

text \<open>The vertical cursor when page \<open>i\<close> is pasted.\<close>

lemma paste_each_page:
  assumes "0 \<le> s" "0 \<le> y0" "i < length images"
    and "x < width (images ! i)" "y < height (images ! i)"
    and "0 \<le> xo (width canvas) (images ! i)"
    and "nat (xo (width canvas) (images ! i) + int x) < width canvas"
    and "nat (y0 + sum_list (map (\<lambda>q. int (height q) + s) (take i images)) + int y) < height canvas"
  shows "pixels (paste_each P s xo canvas y0 images)
           (nat (xo (width canvas) (images ! i) + int x),
            nat (y0 + sum_list (map (\<lambda>q. int (height q) + s) (take i images)) + int y))
         = paste_source P (images ! i) (x, y)"
  using assms
proof (induction images arbitrary: canvas y0 i)
  case Nil
  then show ?case by simp
next
  case (Cons im images)
  let ?c = "Image_paste P canvas im (xo (width canvas) im, y0)"
  show ?case
  proof (cases i)
    case 0
    have "int (nat (y0 + int y)) < y0 + (int (height im) + s)"
      using Cons.prems 0 by simp
    then have "pixels (paste_each P s xo ?c (y0 + (int (height im) + s)) images)
                 (nat (xo (width canvas) im + int x), nat (y0 + int y))
               = pixels ?c (nat (xo (width canvas) im + int x), nat (y0 + int y))"
      using paste_each_above [OF Cons.prems(1)] by blast
    also have "\<dots> = paste_source P im (x, y)"
      using Cons.prems 0 by (simp add: Image_paste_inside)
    finally show ?thesis using 0 by simp
  next
    case (Suc k)
    have y1: "0 \<le> y0 + (int (height im) + s)" using Cons.prems(1,2) by simp
    have "pixels (paste_each P s xo ?c (y0 + (int (height im) + s)) images)
           (nat (xo (width ?c) (images ! k) + int x),
            nat (y0 + (int (height im) + s)
                 + sum_list (map (\<lambda>q. int (height q) + s) (take k images)) + int y))
         = paste_source P (images ! k) (x, y)"
      using Cons.prems Suc
      by (intro Cons.IH [OF Cons.prems(1) y1]) (simp_all add: add.assoc)
    then show ?thesis using Suc by (simp add: add.assoc)
  qed
qed

lemma paste_each_white:
  assumes "\<forall>x<width canvas. \<forall>y<height canvas. is_white_pixel (pixels canvas (x, y)) 250"
    and "\<forall>p\<in>set images. \<forall>x<width p. \<forall>y<height p. is_white_pixel (paste_source P p (x, y)) 250"
    and "x < width canvas" "y < height canvas"
  shows "is_white_pixel (pixels (paste_each P s xo canvas y0 images) (x, y)) 250"
  using assms
proof (induction images arbitrary: canvas y0)
  case Nil
  then show ?case by simp
next
  case (Cons im images)
  let ?c = "Image_paste P canvas im (xo (width canvas) im, y0)"
  have "\<forall>x<width ?c. \<forall>y<height ?c. is_white_pixel (pixels ?c (x, y)) 250"
    using Cons.prems(1,2) by (auto simp: Image_paste_def Let_def)
  then show ?case using Cons.IH [of ?c] Cons.prems by simp
qed

section \<open>Canvas size\<close>

lemma py_max_nonempty:
  assumes "xs \<noteq> []"
  shows "py_max xs = Inr (Max (set xs))"
proof (cases xs)
  case Nil
  then show ?thesis using assms by simp
next
  case (Cons x ys)
  have "fold max ys x = Max (set (x # ys))" by (rule Max.set_eq_fold [symmetric])
  then show ?thesis using Cons by (simp add: py_max_def)
qed

lemma width_le_Max:
  "p \<in> set images \<Longrightarrow> width p \<le> Max (set (map width images))"
  by simp

lemma total_height_nonneg:
  "0 \<le> spacing self \<Longrightarrow> 0 \<le> total_height self images"
proof -
  assume s: "0 \<le> spacing self"
  have "0 \<le> sum_list (map (\<lambda>img. int (height img)) images)"
    by (intro sum_list_nonneg) auto
  moreover have "0 \<le> spacing self * (int (length images) - 1)" if "length images > 1"
    using s that by (intro mult_nonneg_nonneg) auto
  ultimately show ?thesis by (simp add: total_height_def Let_def)
qed

lemma total_height_eq:
  "images \<noteq> [] \<Longrightarrow>
     total_height self images =
       sum_list (map (\<lambda>q. int (height q)) images) + spacing self * (int (length images) - 1)"
  by (cases images rule: list.exhaust; cases "tl images")
     (auto simp: total_height_def Let_def)

lemma sum_list_heights_spaced:
  "sum_list (map (\<lambda>q. int (height q) + s) xs) = sum_list (map (\<lambda>q. int (height q)) xs) + s * int (length xs)"
  by (induction xs) (simp_all add: algebra_simps)

lemma cursor_bounds:
  assumes "0 \<le> spacing self" "i < length images"
  shows "0 \<le> sum_list (map (\<lambda>q. int (height q) + spacing self) (take i images))"
    and "sum_list (map (\<lambda>q. int (height q) + spacing self) (take i images))
           + int (height (images ! i)) \<le> total_height self images"
proof -
  let ?s = "spacing self"
  show "0 \<le> sum_list (map (\<lambda>q. int (height q) + ?s) (take i images))"
    using assms(1) by (intro sum_list_nonneg) auto
  have ne: "images \<noteq> []" using assms(2) by auto
  have split: "images = take i images @ (images ! i) # drop (Suc i) images"
    using assms(2) by (simp add: id_take_nth_drop)
  have "sum_list (map (\<lambda>q. int (height q)) images)
        = sum_list (map (\<lambda>q. int (height q)) (take i images)) + int (height (images ! i))
          + sum_list (map (\<lambda>q. int (height q)) (drop (Suc i) images))"
    by (subst split) simp
  moreover have "0 \<le> sum_list (map (\<lambda>q. int (height q)) (drop (Suc i) images))"
    by (intro sum_list_nonneg) auto
  moreover have "?s * int (length (take i images)) \<le> ?s * (int (length images) - 1)"
    using assms by (intro mult_left_mono) auto
  ultimately show "sum_list (map (\<lambda>q. int (height q) + ?s) (take i images))
           + int (height (images ! i)) \<le> total_height self images"
    by (simp add: total_height_eq [OF ne] sum_list_heights_spaced)
qed

lemma new_canvas_ok:
  assumes "0 \<le> h" "int w \<le> 2147483647" "h \<le> 2147483647" "new_refused P (w, nat h) = None"
  shows "new_canvas P w h = Inr (Image_new RGB (w, nat h) white)"
  using assms by (simp add: new_canvas_def)

lemma crop_canvas_ok:
  assumes "crop_refused P (nat (r - l), nat (b - t)) = None"
  shows "crop_canvas P canvas (l, t, r, b) = Inr (Image_crop canvas (l, t, r, b))"
  using assms by (simp add: crop_canvas_def)

lemma new_canvas_total:
  assumes "images \<noteq> []" "0 \<le> spacing self"
    and "int (Max (set (map width images))) \<le> 2147483647"
    and "sum_list (map (\<lambda>p. int (height p)) images)
           + spacing self * (int (length images) - 1) \<le> 2147483647"
    and "new_refused P (Max (set (map width images)),
           nat (sum_list (map (\<lambda>p. int (height p)) images)
           + spacing self * (int (length images) - 1))) = None"
  shows "new_canvas P (Max (set (map width images))) (total_height self images)
         = Inr (Image_new RGB (Max (set (map width images)), nat (total_height self images)) white)"
  using assms total_height_nonneg [OF assms(2), of images]
  by (intro new_canvas_ok) (simp_all add: total_height_eq [OF assms(1)])

lemma Image_new_fields [simp]:
  "width (Image_new m (w, h) c) = w" "height (Image_new m (w, h) c) = h"
  "mode (Image_new m (w, h) c) = m" "pixels (Image_new m (w, h) c) xy = c"
  by (simp_all add: Image_new_def)

lemma compose_fixed_width_ok:
  assumes "images \<noteq> []" "0 \<le> spacing self"
    and "int (Max (set (map width images))) \<le> 2147483647"
    and "sum_list (map (\<lambda>p. int (height p)) images)
           + spacing self * (int (length images) - 1) \<le> 2147483647"
    and "new_refused P (Max (set (map width images)),
           nat (sum_list (map (\<lambda>p. int (height p)) images)
           + spacing self * (int (length images) - 1))) = None"
  shows "compose_fixed_width P self images =
     Inr (paste_each P (spacing self) (\<lambda>w im. (int w - int (width im)) div 2)
            (Image_new RGB (Max (set (map width images)), nat (total_height self images)) white)
            0 images)"
  using assms(1) new_canvas_total [OF assms]
  by (simp add: compose_fixed_width_def calculate_canvas_size_def py_max_nonempty
        paste_all_centered_each)

lemma compose_auto_width_ok:
  assumes "images \<noteq> []" "0 \<le> spacing self"
    and "int (Max (set (map width images))) \<le> 2147483647"
    and "sum_list (map (\<lambda>p. int (height p)) images)
           + spacing self * (int (length images) - 1) \<le> 2147483647"
    and "new_refused P (Max (set (map width images)),
           nat (sum_list (map (\<lambda>p. int (height p)) images)
           + spacing self * (int (length images) - 1))) = None"
  shows "compose_auto_width P self images =
     (let full = paste_each P (spacing self) (\<lambda>w im. 0)
            (Image_new RGB (Max (set (map width images)), nat (total_height self images)) white)
            0 images;
          actual_width = find_actual_width P full
      in if actual_width < Max (set (map width images))
         then crop_canvas P full (0, 0, int actual_width, total_height self images)
         else Inr full)"
  using assms(1) new_canvas_total [OF assms]
  by (simp add: compose_auto_width_def py_max_nonempty paste_flush_left_each Let_def)

lemma compose_auto_width_cropped:
  assumes "images \<noteq> []" "0 \<le> spacing self"
    and "int (Max (set (map width images))) \<le> 2147483647"
    and "sum_list (map (\<lambda>p. int (height p)) images)
           + spacing self * (int (length images) - 1) \<le> 2147483647"
    and "new_refused P (Max (set (map width images)),
           nat (sum_list (map (\<lambda>p. int (height p)) images)
           + spacing self * (int (length images) - 1))) = None"
    and "find_actual_width P (paste_each P (spacing self) (\<lambda>w im. 0)
            (Image_new RGB (Max (set (map width images)), nat (total_height self images)) white)
            0 images) < Max (set (map width images)) \<longrightarrow>
         crop_refused P (find_actual_width P (paste_each P (spacing self) (\<lambda>w im. 0)
            (Image_new RGB (Max (set (map width images)), nat (total_height self images)) white)
            0 images), nat (total_height self images)) = None"
  shows "compose_auto_width P self images =
     (let full = paste_each P (spacing self) (\<lambda>w im. 0)
            (Image_new RGB (Max (set (map width images)), nat (total_height self images)) white)
            0 images;
          actual_width = find_actual_width P full
      in Inr (if actual_width < Max (set (map width images))
              then Image_crop full (0, 0, int actual_width, total_height self images)
              else full))"
  using assms(6)
  by (simp add: compose_auto_width_ok [OF assms(1-5)] Let_def crop_canvas_ok)

lemma compose_nonempty:
  assumes "images \<noteq> []"
  shows "compose P self images =
     (case (if auto_width self then compose_auto_width P self images
            else compose_fixed_width P self images) of
        Inl e \<Rightarrow> Inl (CompositionError (''Failed to compose images: '' @ str e))
      | Inr canvas \<Rightarrow> Inr canvas)"
  using assms by (simp add: compose_def)

section \<open>Composition\<close>

text \<open>
  C6. Whatever the spacing and the width policy, composing the empty list fails with the
  Composition error of the message below. \<open>compose\<close> reads its compositor and changes
  nothing, so every call on the empty list gives this same error.
\<close>

theorem compose_empty:
  "compose P self [] = Inl (CompositionError ''Cannot compose empty image list'')"
  by (simp add: compose_def)

lemma compose_height_aux:
  assumes "images \<noteq> []" "0 \<le> spacing self"
    and "int (Max (set (map width images))) \<le> 2147483647"
    and "sum_list (map (\<lambda>p. int (height p)) images)
           + spacing self * (int (length images) - 1) \<le> 2147483647"
    and "new_refused P (Max (set (map width images)),
           nat (sum_list (map (\<lambda>p. int (height p)) images)
           + spacing self * (int (length images) - 1))) = None"
    and "auto_width self \<longrightarrow>
           (\<forall>a<Max (set (map width images)). crop_refused P (a,
              nat (sum_list (map (\<lambda>p. int (height p)) images)
           + spacing self * (int (length images) - 1))) = None)"
  shows "\<exists>canvas. compose P self images = Inr canvas
           \<and> int (height canvas) = total_height self images"
proof (cases "auto_width self")
  case True
  let ?full = "paste_each P (spacing self) (\<lambda>w im. 0)
            (Image_new RGB (Max (set (map width images)), nat (total_height self images)) white)
            0 images"
  have "find_actual_width P ?full < Max (set (map width images)) \<longrightarrow>
         crop_refused P (find_actual_width P ?full, nat (total_height self images)) = None"
    using assms(6) True by (simp add: total_height_eq [OF assms(1)])
  from compose_auto_width_cropped [OF assms(1-5) this] True
  show ?thesis
    using assms(1) total_height_nonneg [OF assms(2), of images]
    by (simp add: compose_nonempty Let_def)
next
  case False
  then show ?thesis
    using assms(1) total_height_nonneg [OF assms(2), of images]
    by (simp add: compose_nonempty compose_fixed_width_ok [OF assms(1-5)])
qed

text \<open>
  C1. For a list of pages that is not empty and a spacing that is not negative, when the
  canvas can be made (its width and height within the range of a C \<open>int\<close>, the library
  allocating it and, under the auto-width policy, not refusing to crop it to a narrower
  width), under either width policy \<open>compose\<close> returns a canvas; its height is the sum
  of the pages' heights plus \<open>spacing * (N - 1)\<close> when there are \<open>N > 1\<close> pages, and
  the height of the page when there is one.
\<close>

theorem compose_height:
  assumes "images \<noteq> []" and "0 \<le> spacing self"
    and "int (Max (set (map width images))) \<le> 2147483647"
    and "sum_list (map (\<lambda>p. int (height p)) images)
           + spacing self * (int (length images) - 1) \<le> 2147483647"
    and "new_refused P (Max (set (map width images)),
           nat (sum_list (map (\<lambda>p. int (height p)) images)
           + spacing self * (int (length images) - 1))) = None"
  shows "\<forall>policy.
           (policy \<longrightarrow>
              (\<forall>a<Max (set (map width images)). crop_refused P (a,
                 nat (sum_list (map (\<lambda>p. int (height p)) images)
           + spacing self * (int (length images) - 1))) = None)) \<longrightarrow>
           (\<exists>canvas.
              compose P (self\<lparr>auto_width := policy\<rparr>) images = Inr canvas
            \<and> (length images > 1 \<longrightarrow>
                  int (height canvas) = sum_list (map (\<lambda>p. int (height p)) images)
                                         + spacing self * (int (length images) - 1))
            \<and> (length images = 1 \<longrightarrow> height canvas = height (hd images)))"
proof (intro allI impI)
  fix policy
  assume crop: "policy \<longrightarrow>
              (\<forall>a<Max (set (map width images)). crop_refused P (a,
                 nat (sum_list (map (\<lambda>p. int (height p)) images)
           + spacing self * (int (length images) - 1))) = None)"
  let ?self = "self\<lparr>auto_width := policy\<rparr>"
  have "\<exists>canvas. compose P ?self images = Inr canvas
           \<and> int (height canvas) = total_height ?self images"
    using assms crop by (intro compose_height_aux) simp_all
  then obtain canvas where c: "compose P ?self images = Inr canvas"
    "int (height canvas) = total_height ?self images" by blast
  have "int (height canvas) = sum_list (map (\<lambda>p. int (height p)) images)
                                      + spacing self * (int (length images) - 1)"
    using c(2) total_height_eq [OF assms(1), of ?self] by simp
  moreover have "height canvas = height (hd images)" if "length images = 1"
  proof -
    have "\<exists>p. images = [p]" using that by (simp add: length_Suc_conv)
    then obtain p where "images = [p]" by blast
    then show ?thesis using c(2) by (simp add: total_height_def)
  qed
  ultimately show "\<exists>canvas.
           compose P ?self images = Inr canvas
         \<and> (length images > 1 \<longrightarrow>
               int (height canvas) = sum_list (map (\<lambda>p. int (height p)) images)
                                      + spacing self * (int (length images) - 1))
         \<and> (length images = 1 \<longrightarrow> height canvas = height (hd images))"
    using c(1) by blast
qed

lemma three_pages_fields:
  "three_pages \<noteq> []" "length three_pages = 3"
  "map width three_pages = [100, 150, 80]" "map height three_pages = [50, 60, 40]"
  by (simp_all add: three_pages_def)

lemma sample_crop_allowed:
  "w \<le> 1000 \<Longrightarrow> h \<le> 1000 \<Longrightarrow> crop_refused sample_pil (w, h) = None"
proof -
  assume "w \<le> 1000" "h \<le> 1000"
  then have "max 1 w * max 1 h \<le> 1000 * 1000" by (intro mult_mono) simp_all
  then show ?thesis by (simp add: sample_pil_def)
qed

lemma sample_new_allowed:
  "w \<le> 1000 \<Longrightarrow> h \<le> 1000 \<Longrightarrow> new_refused sample_pil (w, h) = None"
proof -
  assume "w \<le> 1000" "h \<le> 1000"
  then have "w * h \<le> 1000 * 1000" by (intro mult_mono) simp_all
  then show ?thesis by (simp add: sample_pil_def)
qed

theorem compose_height_witness:
  "three_pages \<noteq> [] \<and> (0::int) \<le> 10 \<and> length three_pages > 1
   \<and> new_refused sample_pil (150, 170) = None
   \<and> (\<forall>a. crop_refused sample_pil (min a 149, 170) = None)
   \<and> (\<exists>canvas. compose sample_pil \<lparr>spacing = 10, auto_width = True\<rparr> three_pages = Inr canvas
          \<and> height canvas = 170)
   \<and> (\<exists>canvas. compose sample_pil \<lparr>spacing = 10, auto_width = False\<rparr> three_pages = Inr canvas
          \<and> height canvas = 170)
   \<and> length [sample_page] = 1
   \<and> (\<exists>canvas. compose sample_pil \<lparr>spacing = 10, auto_width = False\<rparr> [sample_page] = Inr canvas
          \<and> height canvas = 4)"
proof -
  let ?self = "\<lparr>spacing = 10, auto_width = True\<rparr>"
  have M: "Max (set (map width three_pages)) = 150"
    "sum_list (map (\<lambda>p. int (height p)) three_pages) = 150" "length three_pages = 3"
    by (simp_all add: three_pages_def)
  have h: "three_pages \<noteq> []" "0 \<le> spacing ?self"
    "int (Max (set (map width three_pages))) \<le> 2147483647"
    "sum_list (map (\<lambda>p. int (height p)) three_pages)
           + spacing ?self * (int (length three_pages) - 1) \<le> 2147483647"
    "new_refused sample_pil (Max (set (map width three_pages)),
           nat (sum_list (map (\<lambda>p. int (height p)) three_pages)
           + spacing ?self * (int (length three_pages) - 1))) = None"
    unfolding M by (simp_all add: sample_new_allowed three_pages_def)
  have n: "new_refused sample_pil (150, 170) = None" by (simp add: sample_new_allowed)
  have cr: "\<forall>a. crop_refused sample_pil (min a 149, 170) = None"
    by (simp add: sample_crop_allowed)
  have crop: "\<forall>a<Max (set (map width three_pages)). crop_refused sample_pil (a,
                 nat (sum_list (map (\<lambda>p. int (height p)) three_pages)
           + spacing ?self * (int (length three_pages) - 1))) = None"
    unfolding M by (simp add: sample_crop_allowed)
  note t = compose_height [OF h]
  have a: "\<exists>canvas. compose sample_pil \<lparr>spacing = 10, auto_width = True\<rparr> three_pages = Inr canvas
          \<and> height canvas = 170"
    using t [THEN spec, of True] crop unfolding M by simp
  have f: "\<exists>canvas. compose sample_pil \<lparr>spacing = 10, auto_width = False\<rparr> three_pages = Inr canvas
          \<and> height canvas = 170"
    using t [THEN spec, of False] unfolding M by simp
  have h1: "[sample_page] \<noteq> []" "0 \<le> spacing ?self"
    "int (Max (set (map width [sample_page]))) \<le> 2147483647"
    "sum_list (map (\<lambda>p. int (height p)) [sample_page])
           + spacing ?self * (int (length [sample_page]) - 1) \<le> 2147483647"
    "new_refused sample_pil (Max (set (map width [sample_page])),
           nat (sum_list (map (\<lambda>p. int (height p)) [sample_page])
           + spacing ?self * (int (length [sample_page]) - 1))) = None"
    by (simp_all add: sample_page_def sample_new_allowed)
  note t1 = compose_height [OF h1]
  have o: "\<exists>canvas. compose sample_pil \<lparr>spacing = 10, auto_width = False\<rparr> [sample_page] = Inr canvas
          \<and> height canvas = 4"
    using t1 [THEN spec, of False] by (simp add: sample_page_def)
  show ?thesis
    using h(1) M(3) n cr a f o by simp
qed

theorem compose_height_counterexample:
  "compose sample_pil \<lparr>spacing = 2147483648, auto_width = True\<rparr> small_pages
     = Inl (CompositionError ''Failed to compose images: signed integer is greater than maximum'')
   \<and> compose sample_pil \<lparr>spacing = 2147483648, auto_width = False\<rparr> small_pages
     = Inl (CompositionError ''Failed to compose images: signed integer is greater than maximum'')"
  by (simp add: compose_def compose_auto_width_def compose_fixed_width_def
        calculate_canvas_size_def py_max_def new_canvas_def total_height_def small_pages_def
        Image_new_def)

lemma paste_source_RGB: "mode p = RGB \<Longrightarrow> paste_source P p xy = pixels p xy"
  by (simp add: paste_source_def)

lemma centered_offset:
  assumes "w \<le> W"
  shows "0 \<le> (int W - int w) div 2" and "(int W - int w) div 2 + int w \<le> int W"
  using assms by simp_all

text \<open>
  C5. Under the fixed-width policy, for a list of pages that is not empty and a spacing
  that is not negative, when the canvas can be allocated (its width and height within the
  range of a C \<open>int\<close> and the library allocating it), \<open>compose\<close> returns a canvas
  as wide as the widest page and as high as C1 says, on which page \<open>i\<close> lies at the horizontal offset
  \<open>(canvas width - page width) div 2\<close> and at the vertical offset that is the sum, over
  the pages before it, of height plus spacing: the page fits there and every pixel of it
  is on the canvas at that place (\<open>paste_source\<close> is the page's own pixel for an RGB
  page). The witness is the example of the claim: widths 100, 150, 80 and heights 50, 60,
  40 at spacing 0 give a canvas of 150 by 150 with the first page at offset 25 and the
  third at offset 35.
\<close>

theorem fixed_width_centered:
  assumes "images \<noteq> []" and "0 \<le> spacing self"
    and "int (Max (set (map width images))) \<le> 2147483647"
    and "sum_list (map (\<lambda>p. int (height p)) images)
           + spacing self * (int (length images) - 1) \<le> 2147483647"
    and "new_refused P (Max (set (map width images)),
           nat (sum_list (map (\<lambda>p. int (height p)) images)
           + spacing self * (int (length images) - 1))) = None"
    and "\<not> auto_width self"
  shows "\<exists>canvas. compose P self images = Inr canvas
     \<and> width canvas = Max (set (map width images))
     \<and> int (height canvas) = sum_list (map (\<lambda>p. int (height p)) images)
                                + spacing self * (int (length images) - 1)
     \<and> (\<forall>i<length images.
          let p = images ! i;
              x_offset = (int (width canvas) - int (width p)) div 2;
              y_offset = sum_list (map (\<lambda>q. int (height q) + spacing self) (take i images))
          in 0 \<le> x_offset \<and> x_offset + int (width p) \<le> int (width canvas)
           \<and> 0 \<le> y_offset \<and> y_offset + int (height p) \<le> int (height canvas)
           \<and> (\<forall>x<width p. \<forall>y<height p.
                 pixels canvas (nat (x_offset + int x), nat (y_offset + int y))
                   = paste_source P p (x, y)))"
proof -
  let ?W = "Max (set (map width images))"
  let ?H = "total_height self images"
  let ?xo = "\<lambda>w im. (int w - int (width im)) div 2"
  let ?c = "paste_each P (spacing self) ?xo (Image_new RGB (?W, nat ?H) white) 0 images"
  have c: "compose P self images = Inr ?c"
    using assms(1,6) by (simp add: compose_nonempty compose_fixed_width_ok [OF assms(1-5)])
  have H: "0 \<le> ?H" by (rule total_height_nonneg [OF assms(2)])
  have w: "width ?c = ?W" and h: "int (height ?c) = ?H" using H by simp_all
  have page: "let p = images ! i;
              x_offset = (int (width ?c) - int (width p)) div 2;
              y_offset = sum_list (map (\<lambda>q. int (height q) + spacing self) (take i images))
          in 0 \<le> x_offset \<and> x_offset + int (width p) \<le> int (width ?c)
           \<and> 0 \<le> y_offset \<and> y_offset + int (height p) \<le> int (height ?c)
           \<and> (\<forall>x<width p. \<forall>y<height p.
                 pixels ?c (nat (x_offset + int x), nat (y_offset + int y))
                   = paste_source P p (x, y))"
    if i: "i < length images" for i
  proof -
    let ?p = "images ! i"
    let ?x = "(int ?W - int (width ?p)) div 2"
    let ?y = "sum_list (map (\<lambda>q. int (height q) + spacing self) (take i images))"
    have "?p \<in> set images" using i by simp
    then have le: "width ?p \<le> ?W" by (rule width_le_Max)
    note x = centered_offset [OF le]
    note y = cursor_bounds [OF assms(2) i]
    have px: "pixels ?c (nat (?x + int x), nat (?y + int y)) = paste_source P ?p (x, y)"
      if "x < width ?p" "y < height ?p" for x y
    proof -
      have "nat (?x + int x) < ?W" using x that(1) by linarith
      moreover have "nat (0 + ?y + int y) < nat ?H" using y that(2) by linarith
      ultimately show ?thesis
        using paste_each_page [where xo = ?xo and canvas = "Image_new RGB (?W, nat ?H) white"
            and ?y0.0 = 0 and images = images and i = i and x = x and y = y and s = "spacing self"
            and P = P]
          assms(2) i that x(1)
        by simp
    qed
    show ?thesis
      unfolding Let_def w using x y px h by simp
  qed
  have "int (height ?c) = sum_list (map (\<lambda>p. int (height p)) images)
                                + spacing self * (int (length images) - 1)"
    using h total_height_eq [OF assms(1), of self] by simp
  then show ?thesis using c w page by blast
qed


lemma three_pages_nth:
  "three_pages ! 0 = Image_new RGB (100, 50) red"
  "three_pages ! 2 = Image_new RGB (80, 40) blue"
  "take 0 three_pages = []"
  "take 2 three_pages = [Image_new RGB (100, 50) red, Image_new RGB (150, 60) green]"
  by (simp_all add: three_pages_def)

theorem fixed_width_centered_witness:
  "three_pages \<noteq> [] \<and> 0 \<le> spacing \<lparr>spacing = 0, auto_width = False\<rparr>
   \<and> \<not> auto_width \<lparr>spacing = 0, auto_width = False\<rparr>
   \<and> (\<exists>canvas. compose sample_pil \<lparr>spacing = 0, auto_width = False\<rparr> three_pages = Inr canvas
        \<and> width canvas = 150 \<and> height canvas = 150
        \<and> (\<forall>x<100. \<forall>y<50. pixels canvas (25 + x, y) = red)
        \<and> (\<forall>x<80. \<forall>y<40. pixels canvas (35 + x, 110 + y) = blue))"
proof -
  let ?self = "\<lparr>spacing = 0, auto_width = False\<rparr>"
  have M: "Max (set (map width three_pages)) = 150"
    "sum_list (map (\<lambda>p. int (height p)) three_pages) = 150" "length three_pages = 3"
    by (simp_all add: three_pages_def)
  have h: "three_pages \<noteq> []" "0 \<le> spacing ?self"
    "int (Max (set (map width three_pages))) \<le> 2147483647"
    "sum_list (map (\<lambda>p. int (height p)) three_pages)
           + spacing ?self * (int (length three_pages) - 1) \<le> 2147483647"
    "new_refused sample_pil (Max (set (map width three_pages)),
           nat (sum_list (map (\<lambda>p. int (height p)) three_pages)
           + spacing ?self * (int (length three_pages) - 1))) = None"
    "\<not> auto_width ?self"
    unfolding M by (simp_all add: sample_new_allowed three_pages_def)
  from fixed_width_centered [OF h]
  obtain canvas where c: "compose sample_pil ?self three_pages = Inr canvas"
    and w: "width canvas = Max (set (map width three_pages))"
    and ht: "int (height canvas) = sum_list (map (\<lambda>p. int (height p)) three_pages)
                                + spacing ?self * (int (length three_pages) - 1)"
    and pg: "\<forall>i<length three_pages.
          let p = three_pages ! i;
              x_offset = (int (width canvas) - int (width p)) div 2;
              y_offset = sum_list (map (\<lambda>q. int (height q) + spacing ?self) (take i three_pages))
          in 0 \<le> x_offset \<and> x_offset + int (width p) \<le> int (width canvas)
           \<and> 0 \<le> y_offset \<and> y_offset + int (height p) \<le> int (height canvas)
           \<and> (\<forall>x<width p. \<forall>y<height p.
                 pixels canvas (nat (x_offset + int x), nat (y_offset + int y))
                   = paste_source sample_pil p (x, y))"
    by blast
  have w': "width canvas = 150" using w by (simp add: three_pages_fields)
  have h': "height canvas = 150" using ht by (simp add: three_pages_def)
  have "0 < length three_pages" "2 < length three_pages" by (simp_all add: three_pages_fields)
  note p0 = pg [rule_format, OF this(1)] and p2 = pg [rule_format, OF this(2)]
  have 1: "\<forall>x<100. \<forall>y<50. pixels canvas (25 + x, y) = red"
    using p0 by (simp add: Let_def three_pages_nth w' paste_source_RGB nat_add_distrib)
  have 2: "\<forall>x<80. \<forall>y<40. pixels canvas (35 + x, 110 + y) = blue"
    using p2 by (simp add: Let_def three_pages_nth w' paste_source_RGB nat_add_distrib)
  show ?thesis using h c w' h' 1 2 by blast
qed

theorem fixed_width_centered_counterexample:
  "compose sample_pil \<lparr>spacing = 2147483648, auto_width = False\<rparr> three_pages
     = Inl (CompositionError ''Failed to compose images: signed integer is greater than maximum'')"
  by (simp add: compose_def compose_fixed_width_def calculate_canvas_size_def py_max_def
        new_canvas_def total_height_def three_pages_def Image_new_def)

lemma not_white_inline:
  "(case p of (r, g, b, a) \<Rightarrow> \<not> (uint r > 250 \<and> uint g > 250 \<and> uint b > 250))
     = (\<not> is_white_pixel p 250)"
  by (cases p) (simp add: is_white_pixel_def)

lemma find_actual_width_RGB:
  assumes "mode im = RGB"
  shows "find_actual_width P im =
     (case find (\<lambda>x. list_ex (\<lambda>y. \<not> is_white_pixel (pixels im (x, y)) 250) [0..<height im])
             (rev [0..<width im]) of
        Some x \<Rightarrow> x + 1
      | None \<Rightarrow> 1)"
  unfolding find_actual_width_def Let_def not_white_inline using assms by simp

lemma find_actual_width_content:
  assumes "mode im = RGB" "x0 < width im" "y0 < height im"
    "\<not> is_white_pixel (pixels im (x0, y0)) 250"
  shows "find_actual_width P im = find_right_boundary (pixels im) (width im) (height im)"
proof -
  let ?P = "\<lambda>x. list_ex (\<lambda>y. \<not> is_white_pixel (pixels im (x, y)) 250) [0..<height im]"
  have "?P x0" using assms by (auto simp: list_ex_upt)
  then have "find ?P (rev [0..<width im]) \<noteq> None"
    using assms(2) by (auto simp: find_rev_upt_None)
  then show ?thesis
    using assms(1) by (auto simp: find_actual_width_RGB find_right_boundary_def)
qed

lemma find_actual_width_blank:
  assumes "mode im = RGB" "\<forall>x<width im. \<forall>y<height im. is_white_pixel (pixels im (x, y)) 250"
  shows "find_actual_width P im = 1"
proof -
  let ?P = "\<lambda>x. list_ex (\<lambda>y. \<not> is_white_pixel (pixels im (x, y)) 250) [0..<height im]"
  have "find ?P (rev [0..<width im]) = None"
    using assms(2) by (auto simp: find_rev_upt_None list_ex_upt)
  then show ?thesis using assms(1) by (simp add: find_actual_width_RGB)
qed

text \<open>
  C9. Under the auto-width policy, when every page is at least one pixel wide and every
  pixel of every page is background, and the canvas can be made (its width and height
  within the range of a C \<open>int\<close>, the library allocating it and, where the widest page
  is wider than one pixel, not refusing to crop it to width 1), the canvas returned is
  exactly 1 wide and of the full computed height.
\<close>

theorem auto_width_all_background:
  assumes "images \<noteq> []" and "0 \<le> spacing self"
    and "int (Max (set (map width images))) \<le> 2147483647"
    and "sum_list (map (\<lambda>p. int (height p)) images)
           + spacing self * (int (length images) - 1) \<le> 2147483647"
    and "new_refused P (Max (set (map width images)),
           nat (sum_list (map (\<lambda>p. int (height p)) images)
           + spacing self * (int (length images) - 1))) = None"
    and "auto_width self"
    and "1 < Max (set (map width images)) \<longrightarrow>
           crop_refused P (1, nat (sum_list (map (\<lambda>p. int (height p)) images)
           + spacing self * (int (length images) - 1))) = None"
    and "\<forall>p\<in>set images. 1 \<le> width p"
    and "\<forall>p\<in>set images. \<forall>x<width p. \<forall>y<height p. is_white_pixel (paste_source P p (x, y)) 250"
  shows "\<exists>canvas. compose P self images = Inr canvas
     \<and> width canvas = 1
     \<and> int (height canvas) = sum_list (map (\<lambda>p. int (height p)) images)
                                + spacing self * (int (length images) - 1)"
proof -
  let ?W = "Max (set (map width images))"
  let ?H = "total_height self images"
  let ?full = "paste_each P (spacing self) (\<lambda>w im. 0) (Image_new RGB (?W, nat ?H) white) 0 images"
  have H: "0 \<le> ?H" by (rule total_height_nonneg [OF assms(2)])
  have "is_white_pixel white 250" by (simp add: is_white_pixel_def white_def)
  then have "\<forall>x<width ?full. \<forall>y<height ?full. is_white_pixel (pixels ?full (x, y)) 250"
    using assms(9) by (intro allI impI paste_each_white) simp_all
  then have a: "find_actual_width P ?full = 1"
    by (intro find_actual_width_blank) simp_all
  obtain p where "p \<in> set images" using assms(1) by (cases images) auto
  then have "1 \<le> width p" "width p \<le> ?W"
    using assms(8) width_le_Max [of p images] by blast+
  then have W: "1 \<le> ?W" by linarith
  let ?canvas = "if 1 < ?W then Image_crop ?full (0, 0, 1, ?H) else ?full"
  have "find_actual_width P ?full < ?W \<longrightarrow>
          crop_refused P (find_actual_width P ?full, nat ?H) = None"
    using assms(7) a by (simp add: total_height_eq [OF assms(1)])
  from compose_auto_width_cropped [OF assms(1-5) this]
  have c: "compose P self images = Inr ?canvas"
    using assms(1,6) a by (simp add: compose_nonempty Let_def)
  have "width ?canvas = 1" using W by simp
  moreover have "int (height ?canvas) = ?H" using H by simp
  ultimately show ?thesis
    using c total_height_eq [OF assms(1), of self] by (intro exI [of _ ?canvas]) simp
qed

theorem auto_width_all_background_witness:
  "white_pages \<noteq> [] \<and> 0 \<le> spacing \<lparr>spacing = 5, auto_width = True\<rparr>
   \<and> auto_width \<lparr>spacing = 5, auto_width = True\<rparr>
   \<and> new_refused sample_pil (3, 11) = None \<and> crop_refused sample_pil (1, 11) = None
   \<and> list_all (\<lambda>p. 1 \<le> width p) white_pages
   \<and> (\<forall>x y. list_all (\<lambda>p. is_white_pixel (paste_source sample_pil p (x, y)) 250) white_pages)
   \<and> (\<exists>canvas. compose sample_pil \<lparr>spacing = 5, auto_width = True\<rparr> white_pages = Inr canvas
         \<and> width canvas = 1 \<and> height canvas = 11)"
proof -
  let ?self = "\<lparr>spacing = 5, auto_width = True\<rparr>"
  have M: "Max (set (map width white_pages)) = 3"
    "sum_list (map (\<lambda>p. int (height p)) white_pages) = 6" "length white_pages = 2"
    by (simp_all add: white_pages_def)
  have h: "white_pages \<noteq> []" "0 \<le> spacing ?self"
    "int (Max (set (map width white_pages))) \<le> 2147483647"
    "sum_list (map (\<lambda>p. int (height p)) white_pages)
           + spacing ?self * (int (length white_pages) - 1) \<le> 2147483647"
    "new_refused sample_pil (Max (set (map width white_pages)),
           nat (sum_list (map (\<lambda>p. int (height p)) white_pages)
           + spacing ?self * (int (length white_pages) - 1))) = None"
    "auto_width ?self"
    "1 < Max (set (map width white_pages)) \<longrightarrow>
           crop_refused sample_pil (1, nat (sum_list (map (\<lambda>p. int (height p)) white_pages)
           + spacing ?self * (int (length white_pages) - 1))) = None"
    unfolding M by (simp_all add: sample_new_allowed sample_crop_allowed white_pages_def)
  have g: "\<forall>p\<in>set white_pages. 1 \<le> width p"
    "\<forall>p\<in>set white_pages. \<forall>x<width p. \<forall>y<height p.
         is_white_pixel (paste_source sample_pil p (x, y)) 250"
    by (simp_all add: white_pages_def paste_source_def is_white_pixel_def white_def)
  have "\<exists>canvas. compose sample_pil ?self white_pages = Inr canvas
         \<and> width canvas = 1 \<and> height canvas = 11"
    using auto_width_all_background [OF h g] unfolding M by simp
  moreover have "list_all (\<lambda>p. 1 \<le> width p) white_pages"
    "\<forall>x y. list_all (\<lambda>p. is_white_pixel (paste_source sample_pil p (x, y)) 250) white_pages"
    by (simp_all add: white_pages_def paste_source_def is_white_pixel_def white_def)
  moreover have "new_refused sample_pil (3, 11) = None" "crop_refused sample_pil (1, 11) = None"
    by (simp_all add: sample_new_allowed sample_crop_allowed)
  ultimately show ?thesis using h(1,2,6) by blast
qed

theorem auto_width_all_background_counterexample:
  "list_all (\<lambda>p. 1 \<le> width p) white_pages
   \<and> (\<forall>x y. list_all (\<lambda>p. is_white_pixel (paste_source sample_pil p (x, y)) 250) white_pages)
   \<and> compose sample_pil \<lparr>spacing = 2147483648, auto_width = True\<rparr> white_pages
       = Inl (CompositionError ''Failed to compose images: signed integer is greater than maximum'')"
  by (simp add: compose_def compose_auto_width_def py_max_def new_canvas_def total_height_def
        white_pages_def Image_new_def paste_source_def is_white_pixel_def white_def)

text \<open>
  C2. Under the auto-width policy, when the canvas can be made (its width and height
  within the range of a C \<open>int\<close>, the library allocating it and not refusing to crop it
  to a narrower width), \<open>compose\<close> returns a canvas made so: the canvas
  \<open>full\<close> is allocated as wide as the widest page and every page is pasted on it at
  \<open>x = 0\<close>, one below the other; \<open>actual_width\<close>, the scan of \<open>full\<close> from the
  right, lies beyond every column of \<open>full\<close> that holds a pixel that is not background
  and, when there is such a pixel, column \<open>actual_width - 1\<close> holds one; the result is
  \<open>full\<close> cut to that width when it is narrower, \<open>full\<close> itself otherwise, with
  the pixels it keeps unchanged. So the final width is at most the widest page's, and it
  is the widest page's whenever some page has a pixel that is not background in column
  \<open>max_width - 1\<close>.
\<close>

theorem auto_width_trim:
  assumes "images \<noteq> []" and "0 \<le> spacing self"
    and "int (Max (set (map width images))) \<le> 2147483647"
    and "sum_list (map (\<lambda>p. int (height p)) images)
           + spacing self * (int (length images) - 1) \<le> 2147483647"
    and "new_refused P (Max (set (map width images)),
           nat (sum_list (map (\<lambda>p. int (height p)) images)
           + spacing self * (int (length images) - 1))) = None"
    and "auto_width self"
    and "\<forall>a<Max (set (map width images)). crop_refused P (a,
           nat (sum_list (map (\<lambda>p. int (height p)) images)
           + spacing self * (int (length images) - 1))) = None"
  shows "\<exists>canvas. compose P self images = Inr canvas
     \<and> (let max_width = Max (set (map width images));
             th = sum_list (map (\<lambda>p. int (height p)) images)
                    + spacing self * (int (length images) - 1);
             full = paste_flush_left P self (Image_new RGB (max_width, nat th) white) 0 images;
             actual_width = find_actual_width P full
         in width full = max_width \<and> int (height full) = th
          \<and> (\<forall>i<length images.
                let p = images ! i;
                    y_offset = sum_list (map (\<lambda>q. int (height q) + spacing self) (take i images))
                in 0 \<le> y_offset \<and> y_offset + int (height p) \<le> th
                 \<and> (\<forall>x<width p. \<forall>y<height p.
                       pixels full (x, nat (y_offset + int y)) = paste_source P p (x, y)))
          \<and> (\<forall>x<max_width. \<forall>y<height full.
                \<not> is_white_pixel (pixels full (x, y)) 250 \<longrightarrow> x < actual_width)
          \<and> ((\<exists>x<max_width. \<exists>y<height full. \<not> is_white_pixel (pixels full (x, y)) 250) \<longrightarrow>
                actual_width \<le> max_width
              \<and> (\<exists>y<height full. \<not> is_white_pixel (pixels full (actual_width - 1, y)) 250))
          \<and> canvas = (if actual_width < max_width
                       then Image_crop full (0, 0, int actual_width, th) else full)
          \<and> width canvas = min actual_width max_width
          \<and> height canvas = height full
          \<and> (\<forall>x<width canvas. \<forall>y<height canvas. pixels canvas (x, y) = pixels full (x, y))
          \<and> width canvas \<le> max_width
          \<and> ((\<exists>p\<in>set images. \<exists>y<height p. max_width - 1 < width p
                 \<and> \<not> is_white_pixel (paste_source P p (max_width - 1, y)) 250) \<longrightarrow>
                width canvas = max_width))"
proof -
  let ?W = "Max (set (map width images))"
  let ?H = "total_height self images"
  let ?full = "paste_each P (spacing self) (\<lambda>w im. 0) (Image_new RGB (?W, nat ?H) white) 0 images"
  let ?a = "find_actual_width P ?full"
  let ?canvas = "if ?a < ?W then Image_crop ?full (0, 0, int ?a, ?H) else ?full"
  have H: "0 \<le> ?H" by (rule total_height_nonneg [OF assms(2)])
  have th: "sum_list (map (\<lambda>p. int (height p)) images)
              + spacing self * (int (length images) - 1) = ?H"
    by (rule total_height_eq [OF assms(1), symmetric])
  have full: "paste_flush_left P self (Image_new RGB (?W, nat ?H) white) 0 images = ?full"
    by (rule paste_flush_left_each)
  have "?a < ?W \<longrightarrow> crop_refused P (?a, nat ?H) = None"
    using assms(7) by (simp add: total_height_eq [OF assms(1)])
  from compose_auto_width_cropped [OF assms(1-5) this]
  have c: "compose P self images = Inr ?canvas"
    using assms(1,6) by (simp add: compose_nonempty Let_def)
  have sz: "width ?full = ?W" "int (height ?full) = ?H" "mode ?full = RGB"
    using H by simp_all
  have hf: "height ?full = nat ?H" by simp
  have page: "0 \<le> sum_list (map (\<lambda>q. int (height q) + spacing self) (take i images))
       \<and> sum_list (map (\<lambda>q. int (height q) + spacing self) (take i images))
           + int (height (images ! i)) \<le> ?H
       \<and> (\<forall>x<width (images ! i). \<forall>y<height (images ! i).
             pixels ?full (x, nat (sum_list (map (\<lambda>q. int (height q) + spacing self)
                                      (take i images)) + int y))
               = paste_source P (images ! i) (x, y))"
    if i: "i < length images" for i
  proof -
    let ?p = "images ! i"
    let ?y = "sum_list (map (\<lambda>q. int (height q) + spacing self) (take i images))"
    have "?p \<in> set images" using i by simp
    then have le: "width ?p \<le> ?W" by (rule width_le_Max)
    note y = cursor_bounds [OF assms(2) i]
    have "pixels ?full (x, nat (?y + int y)) = paste_source P ?p (x, y)"
      if "x < width ?p" "y < height ?p" for x y
    proof -
      have "x < ?W" using le that(1) by linarith
      moreover have "nat (0 + ?y + int y) < nat ?H" using y that(2) by linarith
      ultimately show ?thesis
        using paste_each_page [where xo = "\<lambda>w im. 0"
            and canvas = "Image_new RGB (?W, nat ?H) white"
            and ?y0.0 = 0 and images = images and i = i and x = x and y = y and s = "spacing self"
            and P = P]
          assms(2) i that
        by simp
    qed
    then show ?thesis using y by blast
  qed
  have beyond: "x < ?a" if "x < ?W" "y < height ?full" "\<not> is_white_pixel (pixels ?full (x, y)) 250"
    for x y
  proof -
    have "x < width ?full" using that(1) by simp
    from find_actual_width_content [OF sz(3) this that(2,3)]
      right_boundary_content(1) [where px = "pixels ?full", OF this that(2,3)]
    show ?thesis by simp
  qed
  have tight: "?a \<le> ?W \<and> (\<exists>y<height ?full. \<not> is_white_pixel (pixels ?full (?a - 1, y)) 250)"
    if "\<exists>x<?W. \<exists>y<height ?full. \<not> is_white_pixel (pixels ?full (x, y)) 250"
  proof -
    from that obtain x y where xy: "x < width ?full" "y < height ?full"
      "\<not> is_white_pixel (pixels ?full (x, y)) 250" by auto
    from find_actual_width_content [OF sz(3) xy]
      right_boundary_content(2,3) [where px = "pixels ?full", OF xy]
    show ?thesis by simp
  qed
  have one: "1 \<le> ?a"
    by (simp add: find_actual_width_RGB split: option.splits)
  have wc: "width ?canvas = min ?a ?W" using one by (simp add: min_def)
  have hc: "height ?canvas = height ?full" by simp
  have pc: "pixels ?canvas (x, y) = pixels ?full (x, y)"
    if "x < width ?canvas" "y < height ?canvas" for x y
  proof (cases "?a < ?W")
    case True
    have "pixels (Image_crop ?full (0, 0, int ?a, ?H)) (x, y) = pixels ?full (nat 0 + x, nat 0 + y)"
      using that True by (intro Image_crop_inside) simp_all
    then show ?thesis using True by simp
  next
    case False
    then show ?thesis by simp
  qed
  have full_width: "width ?canvas = ?W"
    if "\<exists>p\<in>set images. \<exists>y<height p. ?W - 1 < width p
          \<and> \<not> is_white_pixel (paste_source P p (?W - 1, y)) 250"
  proof -
    from that obtain p y where p: "p \<in> set images" "y < height p" "?W - 1 < width p"
      "\<not> is_white_pixel (paste_source P p (?W - 1, y)) 250" by blast
    from p(1) obtain i where i: "i < length images" "images ! i = p"
      by (auto simp: in_set_conv_nth)
    let ?y = "sum_list (map (\<lambda>q. int (height q) + spacing self) (take i images))"
    have W: "0 < ?W" using p(3) width_le_Max [OF p(1)] by linarith
    have px: "pixels ?full (?W - 1, nat (?y + int y)) = paste_source P p (?W - 1, y)"
      using page [OF i(1)] i(2) p(2,3) by simp
    have "nat (?y + int y) < height ?full"
      using page [OF i(1)] i(2) p(2) H by simp
    then have "?W - 1 < ?a"
      using beyond [of "?W - 1" "nat (?y + int y)"] W px p(4) by simp
    then have "min ?a ?W = ?W" using W by linarith
    then show ?thesis using wc by (rule_tac trans)
  qed
  have main: "(let max_width = ?W; th = ?H; full = ?full; actual_width = ?a
         in width full = max_width \<and> int (height full) = th
          \<and> (\<forall>i<length images.
                let p = images ! i;
                    y_offset = sum_list (map (\<lambda>q. int (height q) + spacing self) (take i images))
                in 0 \<le> y_offset \<and> y_offset + int (height p) \<le> th
                 \<and> (\<forall>x<width p. \<forall>y<height p.
                       pixels full (x, nat (y_offset + int y)) = paste_source P p (x, y)))
          \<and> (\<forall>x<max_width. \<forall>y<height full.
                \<not> is_white_pixel (pixels full (x, y)) 250 \<longrightarrow> x < actual_width)
          \<and> ((\<exists>x<max_width. \<exists>y<height full. \<not> is_white_pixel (pixels full (x, y)) 250) \<longrightarrow>
                actual_width \<le> max_width
              \<and> (\<exists>y<height full. \<not> is_white_pixel (pixels full (actual_width - 1, y)) 250))
          \<and> ?canvas = (if actual_width < max_width
                       then Image_crop full (0, 0, int actual_width, th) else full)
          \<and> width ?canvas = min actual_width max_width
          \<and> height ?canvas = height full
          \<and> (\<forall>x<width ?canvas. \<forall>y<height ?canvas. pixels ?canvas (x, y) = pixels full (x, y))
          \<and> width ?canvas \<le> max_width
          \<and> ((\<exists>p\<in>set images. \<exists>y<height p. max_width - 1 < width p
                 \<and> \<not> is_white_pixel (paste_source P p (max_width - 1, y)) 250) \<longrightarrow>
                width ?canvas = max_width))"
    unfolding Let_def
  proof (intro conjI allI impI)
    show "width ?full = ?W" by (rule sz(1))
    show "int (height ?full) = ?H" by (rule sz(2))
    show "?canvas = ?canvas" by (rule refl)
    show "width ?canvas = min ?a ?W" by (rule wc)
    show "height ?canvas = height ?full" by (rule hc)
    show "width ?canvas \<le> ?W" unfolding wc by simp
  qed (use page beyond tight pc full_width in blast)+
  show ?thesis
    unfolding Let_def th full
    by (rule exI [of _ ?canvas], rule conjI, rule c, rule main [unfolded Let_def])
qed

lemma narrow_actual_width:
  "find_actual_width sample_pil
     (paste_flush_left sample_pil \<lparr>spacing = 0, auto_width = True\<rparr>
        (Image_new RGB (4, 5) white) 0 narrow_pages) = 3"
  by (simp add: find_actual_width_def narrow_pages_def Image_paste_def paste_source_def
        Image_new_def sample_page_def sample_pixels_def white_def red_def upt_conv_Cons Let_def)

theorem auto_width_trim_witness:
  "three_pages \<noteq> [] \<and> 0 \<le> spacing \<lparr>spacing = 0, auto_width = True\<rparr>
   \<and> auto_width \<lparr>spacing = 0, auto_width = True\<rparr>
   \<and> new_refused sample_pil (150, 150) = None
   \<and> (\<forall>a. crop_refused sample_pil (min a 149, 150) = None)
   \<and> (\<exists>p\<in>set three_pages. \<exists>y<height p. 150 - 1 < width p
          \<and> \<not> is_white_pixel (paste_source sample_pil p (150 - 1, y)) 250)
   \<and> (\<exists>canvas. compose sample_pil \<lparr>spacing = 0, auto_width = True\<rparr> three_pages = Inr canvas
          \<and> width canvas = 150 \<and> height canvas = 150)
   \<and> narrow_pages \<noteq> []
   \<and> (\<exists>canvas. compose sample_pil \<lparr>spacing = 0, auto_width = True\<rparr> narrow_pages = Inr canvas
          \<and> width canvas = 3 \<and> height canvas = 5)"
proof -
  let ?self = "\<lparr>spacing = 0, auto_width = True\<rparr>"
  have M: "Max (set (map width three_pages)) = 150"
    "sum_list (map (\<lambda>p. int (height p)) three_pages) = 150" "length three_pages = 3"
    by (simp_all add: three_pages_def)
  have h: "three_pages \<noteq> []" "0 \<le> spacing ?self"
    "int (Max (set (map width three_pages))) \<le> 2147483647"
    "sum_list (map (\<lambda>p. int (height p)) three_pages)
           + spacing ?self * (int (length three_pages) - 1) \<le> 2147483647"
    "new_refused sample_pil (Max (set (map width three_pages)),
           nat (sum_list (map (\<lambda>p. int (height p)) three_pages)
           + spacing ?self * (int (length three_pages) - 1))) = None"
    "auto_width ?self"
    "\<forall>a<Max (set (map width three_pages)). crop_refused sample_pil (a,
           nat (sum_list (map (\<lambda>p. int (height p)) three_pages)
           + spacing ?self * (int (length three_pages) - 1))) = None"
    unfolding M by (simp_all add: sample_new_allowed sample_crop_allowed three_pages_def)
  have l: "new_refused sample_pil (150, 150) = None"
    "\<forall>a. crop_refused sample_pil (min a 149, 150) = None"
    by (simp_all add: sample_new_allowed sample_crop_allowed)
  have g: "\<exists>p\<in>set three_pages. \<exists>y<height p. 150 - 1 < width p
          \<and> \<not> is_white_pixel (paste_source sample_pil p (150 - 1, y)) 250"
    by (rule bexI [of _ "Image_new RGB (150, 60) green"], rule exI [of _ 0])
      (simp_all add: three_pages_def paste_source_def is_white_pixel_def green_def)
  have 1: "\<exists>canvas. compose sample_pil ?self three_pages = Inr canvas
          \<and> width canvas = 150 \<and> height canvas = 150"
    using auto_width_trim [OF h] g
    unfolding Let_def M by (elim exE conjE) auto
  have N: "Max (set (map width narrow_pages)) = 4"
    "sum_list (map (\<lambda>p. int (height p)) narrow_pages) = 5" "length narrow_pages = 2"
    by (simp_all add: narrow_pages_def sample_page_def)
  have n: "narrow_pages \<noteq> []" "0 \<le> spacing ?self"
    "int (Max (set (map width narrow_pages))) \<le> 2147483647"
    "sum_list (map (\<lambda>p. int (height p)) narrow_pages)
           + spacing ?self * (int (length narrow_pages) - 1) \<le> 2147483647"
    "new_refused sample_pil (Max (set (map width narrow_pages)),
           nat (sum_list (map (\<lambda>p. int (height p)) narrow_pages)
           + spacing ?self * (int (length narrow_pages) - 1))) = None"
    "auto_width ?self"
    "\<forall>a<Max (set (map width narrow_pages)). crop_refused sample_pil (a,
           nat (sum_list (map (\<lambda>p. int (height p)) narrow_pages)
           + spacing ?self * (int (length narrow_pages) - 1))) = None"
    unfolding N by (simp_all add: sample_new_allowed sample_crop_allowed narrow_pages_def)
  have 2: "\<exists>canvas. compose sample_pil ?self narrow_pages = Inr canvas
          \<and> width canvas = 3 \<and> height canvas = 5"
    using auto_width_trim [OF n]
    unfolding Let_def N by (elim exE conjE) (simp add: narrow_actual_width)
  show ?thesis using h(1,2,6) l g 1 n(1) 2 by blast
qed

theorem auto_width_trim_counterexample:
  "compose sample_pil \<lparr>spacing = 2147483648, auto_width = True\<rparr> narrow_pages
     = Inl (CompositionError ''Failed to compose images: signed integer is greater than maximum'')"
  by (simp add: compose_def compose_auto_width_def py_max_def new_canvas_def total_height_def
        narrow_pages_def sample_page_def Image_new_def)

section \<open>Rendering and progress\<close>

lemma logged_apply:
  "logged cb i n (st, calls) = (case cb i n st of (r, st') \<Rightarrow> (r, (st', calls @ [(i, n)])))"
  by (simp add: logged_def)

lemma upt_step: "[idx..<idx + length (x # xs)] = idx # [idx + 1..<idx + 1 + length xs]"
  by (simp add: upt_conv_Cons del: upt_Suc)

lemma process_images_logged:
  assumes "process_images P self (Some (logged cb)) total_pages idx images processed (st, calls)
             = (Inr out, (st', calls'))"
  shows "calls' = calls @ map (\<lambda>i. (i, total_pages)) [idx..<idx + length images]
       \<and> out = processed @ map (process_image P self) images"
  using assms
proof (induction images arbitrary: idx processed st calls)
  case Nil
  then show ?case by simp
next
  case (Cons im images)
  obtain r st1 where cb: "cb idx total_pages st = (r, st1)" by (cases "cb idx total_pages st")
  show ?case
  proof (cases r)
    case None
    with Cons.prems cb
    have "process_images P self (Some (logged cb)) total_pages (idx + 1) images
            (processed @ [process_image P self im]) (st1, calls @ [(idx, total_pages)])
          = (Inr out, (st', calls'))"
      by (simp add: logged_apply Let_def)
    from Cons.IH [OF this]
    show ?thesis unfolding upt_step by simp
  next
    case (Some e)
    with Cons.prems cb show ?thesis by (simp add: logged_apply Let_def)
  qed
qed

lemma process_images_logged_total:
  assumes "\<forall>i n s. fst (cb i n s) = None"
  shows "\<exists>st'. process_images P self (Some (logged cb)) total_pages idx images processed (st, calls)
             = (Inr (processed @ map (process_image P self) images),
                (st', calls @ map (\<lambda>i. (i, total_pages)) [idx..<idx + length images]))"
proof (induction images arbitrary: idx processed st calls)
  case Nil
  show ?case by simp
next
  case (Cons im images)
  obtain r st1 where cb: "cb idx total_pages st = (r, st1)" by (cases "cb idx total_pages st")
  then have r: "r = None" using assms by (metis fst_conv)
  from Cons.IH [of "idx + 1" "processed @ [process_image P self im]" st1 "calls @ [(idx, total_pages)]"]
  show ?case unfolding upt_step using cb r by (simp add: logged_apply Let_def)
qed

lemma process_images_no_callback:
  "process_images P self None total_pages idx images processed st
     = (Inr (processed @ map (process_image P self) images), st)"
  by (induction images arbitrary: idx processed) (simp_all add: Let_def)

text \<open>
  C7. When the rasterizer returns \<open>N\<close> pages, a rendering that succeeds has called the
  progress callback exactly \<open>N\<close> times, with \<open>(1, N), (2, N), \<dots>, (N, N)\<close> in this
  order, and returns the \<open>N\<close> processed pages; and it does succeed, with these calls,
  when the callback never raises. Without a callback the caller's state is untouched.
\<close>

theorem progress_callback_calls:
  assumes "convert_from_path pdf_path (dpi self) = Inr raw"
  shows "(\<forall>out st' calls.
            render_pages P self convert_from_path pdf_path (Some (logged cb)) (st, [])
              = (Inr out, (st', calls)) \<longrightarrow>
            calls = map (\<lambda>i. (i, length raw)) [1..<length raw + 1]
          \<and> out = map (process_image P self) raw)
       \<and> ((\<forall>i n s. fst (cb i n s) = None) \<longrightarrow>
            (\<exists>st'. render_pages P self convert_from_path pdf_path (Some (logged cb)) (st, [])
                     = (Inr (map (process_image P self) raw),
                        (st', map (\<lambda>i. (i, length raw)) [1..<length raw + 1]))))
       \<and> render_pages P self convert_from_path pdf_path None st
            = (Inr (map (process_image P self) raw), st)"
proof (intro conjI allI impI)
  fix out st' calls
  assume a: "render_pages P self convert_from_path pdf_path (Some (logged cb)) (st, [])
              = (Inr out, (st', calls))"
  obtain res st1 calls1 where p:
    "process_images P self (Some (logged cb)) (length raw) 1 raw [] (st, []) = (res, (st1, calls1))"
    by (metis surj_pair)
  with a assms have "res = Inr out" "st1 = st'" "calls1 = calls"
    by (auto simp: render_pages_def split: sum.splits)
  with p process_images_logged [of P self cb "length raw" 1 raw "[]" st "[]" out st' calls]
  show "calls = map (\<lambda>i. (i, length raw)) [1..<length raw + 1]"
    and "out = map (process_image P self) raw"
    by simp_all
next
  assume "\<forall>i n s. fst (cb i n s) = None"
  from process_images_logged_total [OF this, of P self "length raw" 1 raw "[]" st "[]"]
  show "\<exists>st'. render_pages P self convert_from_path pdf_path (Some (logged cb)) (st, [])
                     = (Inr (map (process_image P self) raw),
                        (st', map (\<lambda>i. (i, length raw)) [1..<length raw + 1]))"
    using assms by (auto simp: render_pages_def)
next
  show "render_pages P self convert_from_path pdf_path None st
            = (Inr (map (process_image P self) raw), st)"
    using assms by (simp add: render_pages_def process_images_no_callback)
qed

theorem progress_callback_calls_witness:
  "two_page_document ''a.pdf'' (dpi sample_renderer) = Inr [sample_page, blank_page]
   \<and> (\<forall>i n s. fst (counting_callback i n s) = None)
   \<and> (\<exists>st'. render_pages sample_pil sample_renderer two_page_document ''a.pdf''
              (Some (logged counting_callback)) (0, [])
            = (Inr (map (process_image sample_pil sample_renderer) [sample_page, blank_page]),
               (st', [(1, 2), (2, 2)])))"
proof -
  have h: "two_page_document ''a.pdf'' (dpi sample_renderer) = Inr [sample_page, blank_page]"
    by (simp add: two_page_document_def)
  have t: "\<forall>i n s. fst (counting_callback i n s) = None"
    by (simp add: counting_callback_def)
  have u: "map (\<lambda>i. (i, length [sample_page, blank_page]))
             [1..<length [sample_page, blank_page] + 1] = [(1, 2), (2, 2)]"
    by (simp add: upt_conv_Cons)
  from progress_callback_calls [of two_page_document "''a.pdf''" sample_renderer
      "[sample_page, blank_page]" sample_pil counting_callback 0, OF h] t
  have "\<exists>st'. render_pages sample_pil sample_renderer two_page_document ''a.pdf''
              (Some (logged counting_callback)) (0, [])
            = (Inr (map (process_image sample_pil sample_renderer) [sample_page, blank_page]),
               (st', map (\<lambda>i. (i, length [sample_page, blank_page]))
                        [1..<length [sample_page, blank_page] + 1]))"
    by blast
  then have "\<exists>st'. render_pages sample_pil sample_renderer two_page_document ''a.pdf''
              (Some (logged counting_callback)) (0, [])
            = (Inr (map (process_image sample_pil sample_renderer) [sample_page, blank_page]),
               (st', [(1, 2), (2, 2)]))"
    unfolding u .
  then show ?thesis using h t by blast
qed

end
